theory Spec2Isabelle
  imports Main "HOL-Library.AList" "HOL-Library.Sublist" "HOL-Library.List_Lexorder"
begin

section \<open>JavaScript values\<close>

text \<open>
  The inspector works on plain data received from the host: strings, numbers, booleans,
  arrays and objects. An object is its list of own enumerable properties in enumeration
  order; an absent property reads as \<open>undefined\<close>. Numbers are only ever lengths and
  counts here, so integers stand for them. A JavaScript string is a list of code units.
\<close>

datatype jsval =
    JUndefined
  | JNull
  | JBool bool
  | JNum int
  | JStr string
  | JArr "jsval list"
  | JObj "(string \<times> jsval) list"

type_synonym jsobj = "(string \<times> jsval) list"

datatype error = TypeError

definition bindE :: "error + 'a \<Rightarrow> ('a \<Rightarrow> error + 'b) \<Rightarrow> error + 'b" where
  "bindE m f = (case m of Inl e \<Rightarrow> Inl e | Inr x \<Rightarrow> f x)"

text \<open>Truthiness, as \<open>!!v\<close> computes it.\<close>

fun truthy :: "jsval \<Rightarrow> bool" where
  "truthy JUndefined = False"
| "truthy JNull = False"
| "truthy (JBool b) = b"
| "truthy (JNum n) = (n \<noteq> 0)"
| "truthy (JStr s) = (s \<noteq> [])"
| "truthy (JArr xs) = True"
| "truthy (JObj kvs) = True"

text \<open>\<open>a || b\<close> on values.\<close>

definition js_or :: "jsval \<Rightarrow> jsval \<Rightarrow> jsval" where
  "js_or a b = (if truthy a then a else b)"

text \<open>Reading an own property of an object; \<open>undefined\<close> when it is absent.\<close>

definition oget :: "jsobj \<Rightarrow> string \<Rightarrow> jsval" where
  "oget kvs k = (case map_of kvs k of Some v \<Rightarrow> v | None \<Rightarrow> JUndefined)"

text \<open>
  \<open>v.k\<close> for a named (non-index) property \<open>k\<close> of a value that is neither \<open>null\<close> nor
  \<open>undefined\<close>: objects answer with their own property, arrays and strings know their
  \<open>length\<close>, everything else is \<open>undefined\<close>.
\<close>

fun getv :: "jsval \<Rightarrow> string \<Rightarrow> jsval" where
  "getv (JObj kvs) k = oget kvs k"
| "getv (JArr xs) k = (if k = ''length'' then JNum (int (length xs)) else JUndefined)"
| "getv (JStr s) k = (if k = ''length'' then JNum (int (length s)) else JUndefined)"
| "getv v k = JUndefined"

text \<open>
  \<open>o.hasOwnProperty(k)\<close> on an object of plain data. The method is inherited; an own
  property of that name shadows it with something that is not a function, and the call
  throws.
\<close>

definition hasOwnProperty :: "jsobj \<Rightarrow> string \<Rightarrow> error + bool" where
  "hasOwnProperty kvs k =
     (if ''hasOwnProperty'' \<in> fst ` set kvs then Inl TypeError else Inr (k \<in> fst ` set kvs))"

text \<open>\<open>String(v)\<close>, and \<open>xs.join(sep)\<close>, which prints \<open>null\<close> and \<open>undefined\<close> as nothing.\<close>

fun digits :: "nat \<Rightarrow> string" where
  "digits n = (if n < 10 then [char_of (n + 48)] else digits (n div 10) @ [char_of (n mod 10 + 48)])"

declare digits.simps [simp del]

fun intercalate :: "string \<Rightarrow> string list \<Rightarrow> string" where
  "intercalate sep [] = []"
| "intercalate sep [x] = x"
| "intercalate sep (x # y # ys) = x @ sep @ intercalate sep (y # ys)"

fun js_string :: "jsval \<Rightarrow> string" where
  "js_string JUndefined = ''undefined''"
| "js_string JNull = ''null''"
| "js_string (JBool b) = (if b then ''true'' else ''false'')"
| "js_string (JNum n) = (if n < 0 then CHR ''-'' # digits (nat (- n)) else digits (nat n))"
| "js_string (JStr s) = s"
| "js_string (JArr xs) =
     intercalate '','' (map (\<lambda>x. if x = JUndefined \<or> x = JNull then [] else js_string x) xs)"
| "js_string (JObj kvs) = ''[object Object]''"

definition join :: "string \<Rightarrow> jsval list \<Rightarrow> string" where
  "join sep xs =
     intercalate sep (map (\<lambda>x. if x = JUndefined \<or> x = JNull then [] else js_string x) xs)"

text \<open>\<open>v.join(sep)\<close>: only arrays have the method.\<close>

definition call_join :: "jsval \<Rightarrow> string \<Rightarrow> error + string" where
  "call_join v sep = (case v of JArr xs \<Rightarrow> Inr (join sep xs) | _ \<Rightarrow> Inl TypeError)"

text \<open>
  The pairs a \<open>for (i in v)\<close> loop visits, each key with \<open>v[i]\<close>: the own properties of an
  object, the indices of an array or of a string; nothing for other values.
\<close>

fun own_entries :: "jsval \<Rightarrow> (string \<times> jsval) list" where
  "own_entries (JObj kvs) = kvs"
| "own_entries (JArr xs) = zip (map digits [0..<length xs]) xs"
| "own_entries (JStr s) = zip (map digits [0..<length s]) (map (\<lambda>c. JStr [c]) s)"
| "own_entries v = []"

section \<open>The host\<close>

text \<open>
  What the code calls but does not define: the translator, \<open>JSON.stringify\<close> with tab
  indentation, the case mappings of strings, \<open>encodeURIComponent\<close>, the base URI
  computed from the session options, and the two helpers of \<open>util/app-info\<close> that list
  the fields, dimensions and measures of an object or of its children as a details object.
\<close>

record host =
  translator_get :: "string \<Rightarrow> string"
  stringify :: "jsval \<Rightarrow> jsval"
  toUpperCase :: "string \<Rightarrow> string"
  toLowerCase :: "string \<Rightarrow> string"
  encodeURIComponent :: "string \<Rightarrow> string"
  baseURI :: string
  getDataDefinition :: "jsval \<Rightarrow> jsobj"
  getChildrenDataDefinition :: "jsval \<Rightarrow> jsobj"

section \<open>prepareItem\<close>

text \<open>
  One pass of the loop over \<open>item.details\<close>: the row pushed for key \<open>i\<close> with entry
  \<open>e = item.details[i]\<close>, if any.
\<close>

definition entry_value :: "jsval \<Rightarrow> error + jsval" where
  "entry_value e =
     (case e of
        JObj kvs \<Rightarrow>
          (case map_of kvs ''hasOwnProperty'' of
             Some w \<Rightarrow> if truthy w then Inl TypeError else Inr e
           | None \<Rightarrow> Inr (if ''value'' \<in> fst ` set kvs then oget kvs ''value'' else e))
      | _ \<Rightarrow> Inr e)"

definition shown :: "jsval \<Rightarrow> bool" where
  "shown v = (v = JBool False \<or> (truthy v \<and> truthy (getv v ''length'')))"

definition default_label :: "host \<Rightarrow> string \<Rightarrow> error + jsval" where
  "default_label h i =
     (case i of [] \<Rightarrow> Inl TypeError | c # cs \<Rightarrow> Inr (JStr (toUpperCase h [c] @ cs)))"

definition detail_row :: "host \<Rightarrow> string \<Rightarrow> jsval \<Rightarrow> jsval \<Rightarrow> error + jsval" where
  "detail_row h i e v =
     bindE (if truthy (getv e ''label'') then Inr (getv e ''label'') else default_label h i)
       (\<lambda>l. Inr (JObj [(''name'', JStr i), (''label'', l),
                       (''value'', (case v of JArr xs \<Rightarrow> v | _ \<Rightarrow> JArr [v])),
                       (''isCode'', JBool (truthy (getv e ''isCode'')))]))"

definition detail_step :: "host \<Rightarrow> jsval \<Rightarrow> string \<Rightarrow> jsval \<Rightarrow> error + jsval list" where
  "detail_step h d i e =
     bindE (case d of JObj kvs \<Rightarrow> hasOwnProperty kvs i | _ \<Rightarrow> Inr True)
       (\<lambda>own.
          if own \<and> e \<noteq> JNull \<and> e \<noteq> JUndefined then
            bindE (entry_value e)
              (\<lambda>v. if shown v then bindE (detail_row h i e v) (\<lambda>r. Inr [r]) else Inr [])
          else Inr [])"

fun detail_rows :: "host \<Rightarrow> jsval \<Rightarrow> (string \<times> jsval) list \<Rightarrow> error + jsval list" where
  "detail_rows h d [] = Inr []"
| "detail_rows h d ((i, e) # es) =
     bindE (detail_step h d i e) (\<lambda>r. bindE (detail_rows h d es) (\<lambda>rs. Inr (r @ rs)))"

text \<open>The search terms after the tags have been added.\<close>

definition add_tags :: "jsval \<Rightarrow> jsval \<Rightarrow> error + jsval" where
  "add_tags st d =
     (if truthy d \<and> truthy (getv d ''tags'') then
        bindE (call_join (getv (getv d ''tags'') ''value'') '' '')
          (\<lambda>j. Inr (JStr (js_string st @ j @ '' '')))
      else Inr st)"

text \<open>
  One of the three code entries: \<open>item.code[k]\<close> is set from \<open>item[k]\<close> unless it is there
  already. For \<open>children\<close> the value must be truthy as well. The source only ever stores an
  object literal in \<open>item.code\<close>; assigning a property to a primitive is silently ignored,
  and any other value of \<open>item.code\<close> is left as it is here.
\<close>

definition code_from :: "host \<Rightarrow> string \<Rightarrow> string \<Rightarrow> bool \<Rightarrow> jsobj \<Rightarrow> error + jsobj" where
  "code_from h k lbl need_truthy item =
     bindE (hasOwnProperty item k)
       (\<lambda>own.
          if own \<and> (need_truthy \<longrightarrow> truthy (oget item k)) then
            (case oget item ''code'' of
               JObj c \<Rightarrow>
                 bindE (hasOwnProperty c k)
                   (\<lambda>there.
                      if there then Inr item
                      else Inr (AList.update ''code''
                             (JObj (AList.update k
                                (JObj [(''label'', JStr lbl), (''value'', stringify h (oget item k))]) c))
                             item))
             | _ \<Rightarrow> Inr item)
          else Inr item)"

definition prepareItem :: "host \<Rightarrow> jsobj \<Rightarrow> error + jsobj" where
  "prepareItem h item =
     (let st = js_or (oget item ''searchTerms'') (JStr '''');
          item1 = AList.update ''searchTerms'' st item;
          d = oget item1 ''details''
      in bindE (add_tags st d)
        (\<lambda>st'. let item2 = AList.update ''searchTerms'' st' item1 in
           bindE (detail_rows h (oget item2 ''details'') (own_entries (js_or (oget item2 ''details'') (JObj []))))
             (\<lambda>rows. let item3 = AList.update ''details'' (JArr rows) item2 in
                if \<not> truthy (oget item3 ''items'') then
                  (let item4 = AList.update ''code'' (js_or (oget item3 ''code'') (JObj [])) item3 in
                     bindE (code_from h ''layout'' ''Layout'' False item4)
                       (\<lambda>item5. bindE (code_from h ''properties'' ''Properties'' False item5)
                          (code_from h ''children'' ''Children'' True)))
                else Inr item3)))"

section \<open>Single URLs\<close>

text \<open>
  \<open>getSingleSheetUrl\<close> and \<open>getSingleVizUrl\<close>. The fields of the options object are the
  arguments: \<open>appId\<close>, \<open>sheetId\<close> or \<open>objId\<close>, and \<open>opts\<close>, which defaults when it is empty.
\<close>

definition getSingleSheetUrl :: "host \<Rightarrow> string \<Rightarrow> string \<Rightarrow> string \<Rightarrow> string" where
  "getSingleSheetUrl h appId sheetId opts =
     (let opts' = (if opts = [] then ''nointeraction,noselections'' else opts)
      in baseURI h @ ''single/?appid='' @ encodeURIComponent h appId @
         ''&sheet='' @ sheetId @ ''&opt='' @ opts')"

definition getSingleVizUrl :: "host \<Rightarrow> string \<Rightarrow> string \<Rightarrow> string \<Rightarrow> string" where
  "getSingleVizUrl h appId objId opts =
     (let opts' = (if opts = [] then ''nointeraction,noselections'' else opts)
      in baseURI h @ ''single/?appid='' @ encodeURIComponent h appId @
         ''&obj='' @ objId @ ''&opt='' @ opts')"

section \<open>Sheets and their visualizations\<close>

text \<open>
  The sheet information as the host returns it. The fields the code reads without a
  guard are always there; those it guards (\<open>visualizations\<close>, \<open>extensionMeta\<close>,
  \<open>children\<close>, \<open>masterobject\<close>) may be missing. What else an object carries is kept as
  plain data, for \<open>JSON.stringify\<close> and the data definition helpers.
\<close>

record qinfo =
  qId :: string
  qType :: string

record extension_meta =
  meta_name :: string
  meta_template :: string
  meta_isThirdParty :: bool

record properties =
  qInfo :: qinfo
  title :: jsval
  subtitle :: jsval
  extensionMeta :: "extension_meta option"
  other_properties :: jsobj

record masterobject =
  master_qId :: jsval
  master_title :: jsval
  master_other :: jsobj

record visualization =
  cell_name :: string
  errors :: "jsval list"
  vis_properties :: properties
  children :: "jsval list option"
  vis_masterobject :: "masterobject option"

record sheet =
  sheet_id :: string
  sheet_label :: string
  visualizations :: "visualization list option"
  preview :: jsval
  sheet_other :: jsobj

text \<open>An entry of the extension list; an absent name is the empty string.\<close>

record extension =
  ext_name :: string
  ext_version :: jsval
  ext_description :: jsval
  ext_author :: jsval
  ext_bundle :: jsval

definition no_extension :: extension where
  "no_extension = \<lparr>ext_name = [], ext_version = JUndefined, ext_description = JUndefined,
     ext_author = JUndefined, ext_bundle = JUndefined\<rparr>"

text \<open>The same objects as plain data.\<close>

definition properties_js :: "properties \<Rightarrow> jsval" where
  "properties_js p =
     JObj ([(''qInfo'', JObj [(''qId'', JStr (qId (qInfo p))), (''qType'', JStr (qType (qInfo p)))]),
            (''title'', title p), (''subtitle'', subtitle p)] @
           (case extensionMeta p of
              None \<Rightarrow> []
            | Some m \<Rightarrow> [(''extensionMeta'',
                 JObj [(''name'', JStr (meta_name m)), (''template'', JStr (meta_template m)),
                       (''isThirdParty'', JBool (meta_isThirdParty m))])]) @
           other_properties p)"

definition masterobject_js :: "masterobject \<Rightarrow> jsval" where
  "masterobject_js m =
     JObj ([(''qInfo'', JObj [(''qId'', master_qId m)]),
            (''qMetaDef'', JObj [(''title'', master_title m)])] @ master_other m)"

section \<open>getUniqueAppObjectsFromSheets\<close>

text \<open>The objects derived from the sheets, one per visualization.\<close>

record sheet_object =
  so_id :: string
  so_sheet :: string
  so_errors :: "jsval list"
  so_meta :: extension_meta
  so_properties :: properties
  so_children :: "jsval list option"
  so_masterobject :: "masterobject option"

definition so_type :: "sheet_object \<Rightarrow> string" where
  "so_type a = qType (qInfo (so_properties a))"

definition sheet_objects :: "sheet \<Rightarrow> sheet_object list" where
  "sheet_objects sh =
     map (\<lambda>object.
            \<lparr>so_id = cell_name object, so_sheet = sheet_id sh, so_errors = errors object,
             so_meta = (case extensionMeta (vis_properties object) of
                          Some m \<Rightarrow> m
                        | None \<Rightarrow> \<lparr>meta_name = qType (qInfo (vis_properties object)),
                                    meta_template = qType (qInfo (vis_properties object)),
                                    meta_isThirdParty = False\<rparr>),
             so_properties = vis_properties object, so_children = children object,
             so_masterobject = vis_masterobject object\<rparr>)
         (case visualizations sh of Some vs \<Rightarrow> vs | None \<Rightarrow> [])"

text \<open>\<open>_.uniq(xs, false, f)\<close>: the first element for each value of \<open>f\<close>, in order.\<close>

fun uniq_seen :: "('a \<Rightarrow> 'k) \<Rightarrow> 'k list \<Rightarrow> 'a list \<Rightarrow> 'a list" where
  "uniq_seen f seen [] = []"
| "uniq_seen f seen (x # xs) =
     (if f x \<in> set seen then uniq_seen f seen xs else x # uniq_seen f (seen @ [f x]) xs)"

definition uniq :: "('a \<Rightarrow> 'k) \<Rightarrow> 'a list \<Rightarrow> 'a list" where
  "uniq f xs = uniq_seen f [] xs"

text \<open>A callback that may throw, mapped over an array.\<close>

fun mapE :: "('a \<Rightarrow> error + 'b) \<Rightarrow> 'a list \<Rightarrow> error + 'b list" where
  "mapE f [] = Inr []"
| "mapE f (x # xs) = bindE (f x) (\<lambda>y. bindE (mapE f xs) (\<lambda>ys. Inr (y # ys)))"

text \<open>A detail entry \<open>{label: ..., value: ...}\<close>.\<close>

definition detail :: "string \<Rightarrow> jsval \<Rightarrow> jsval" where
  "detail l v = JObj [(''label'', JStr l), (''value'', v)]"

text \<open>\<open>t && t.qStringExpression ? t.qStringExpression.qExpr : t\<close>.\<close>

definition expression_or_text :: "jsval \<Rightarrow> jsval" where
  "expression_or_text t =
     (if truthy t \<and> truthy (getv t ''qStringExpression'')
      then getv (getv t ''qStringExpression'') ''qExpr'' else t)"

text \<open>\<open>m && m.qMetaDef.title\<close> and \<open>m && m.qInfo.qId\<close> for an optional master object.\<close>

definition master_title_of :: "masterobject option \<Rightarrow> jsval" where
  "master_title_of m = (case m of None \<Rightarrow> JUndefined | Some x \<Rightarrow> master_title x)"

definition master_id_of :: "masterobject option \<Rightarrow> jsval" where
  "master_id_of m = (case m of None \<Rightarrow> JUndefined | Some x \<Rightarrow> master_qId x)"

text \<open>
  The value of the \<open>sheets\<close> detail: the labels of the sheets holding the objects, each
  once, with a count in front when it occurs more than once. A sheet that \<open>find\<close> did not
  return makes \<open>a.label\<close> throw.
\<close>

definition sheets_value :: "sheet option list \<Rightarrow> error + jsval" where
  "sheets_value sheets =
     bindE (mapE (\<lambda>a. case a of None \<Rightarrow> Inl TypeError | Some b \<Rightarrow> Inr (sheet_label b)) sheets)
       (\<lambda>labels.
          Inr (JArr (map (\<lambda>l. let count = length (filter (\<lambda>b. l = b) labels)
                               in JStr ((if count > 1 then digits count @ '' x '' else []) @ l))
                         (uniq (\<lambda>l. l) labels))))"

text \<open>
  The loop over the data definition: every own entry becomes a detail, and its values,
  joined by blanks, are added to the search terms.
\<close>

definition joined_value :: "jsval \<Rightarrow> error + string" where
  "joined_value e =
     (if e = JUndefined \<or> e = JNull then Inl TypeError else call_join (getv e ''value'') '' '')"

fun data_loop :: "jsobj \<Rightarrow> jsobj \<Rightarrow> string \<Rightarrow> (string \<times> jsval) list \<Rightarrow> error + (jsobj \<times> string)" where
  "data_loop data details st [] = Inr (details, st)"
| "data_loop data details st ((i, e) # es) =
     bindE (hasOwnProperty data i)
       (\<lambda>own. if own then
                 bindE (joined_value e)
                   (\<lambda>j. data_loop data (AList.update i e details) (st @ j @ '' '') es)
               else data_loop data details st es)"

text \<open>
  One sub-item of a group, for the object \<open>a\<close>; \<open>st\<close> is the group's \<open>searchTerms\<close>, which
  the callback extends.
\<close>

definition sub_item :: "host \<Rightarrow> sheet list \<Rightarrow> string \<Rightarrow> sheet_object \<Rightarrow> string \<Rightarrow> error + (jsobj \<times> string)" where
  "sub_item h sheetInfo app_id a st =
     bindE (case find (\<lambda>b. sheet_id b = so_sheet a) sheetInfo of
              None \<Rightarrow> Inl TypeError | Some b \<Rightarrow> Inr (sheet_label b))
       (\<lambda>sheetLabel.
          let details =
                [(''masterobject'', detail (translator_get h ''properties.masterItem'')
                     (js_or (master_title_of (so_masterobject a)) JNull)),
                 (''title'', detail (translator_get h ''properties.titleExpression'')
                     (expression_or_text (title (so_properties a)))),
                 (''subtitle'', detail (translator_get h ''properties.subtitle'')
                     (expression_or_text (subtitle (so_properties a)))),
                 (''sheet'', detail (translator_get h ''Common.Sheet'') (JStr sheetLabel))];
              has_children = (case so_children a of Some cs \<Rightarrow> cs \<noteq> [] | None \<Rightarrow> False);
              code = [(''properties'', detail ''Properties'' (stringify h (properties_js (so_properties a))))] @
                     (if has_children
                      then [(''children'', detail ''Children''
                               (stringify h (JArr (case so_children a of Some cs \<Rightarrow> cs | None \<Rightarrow> []))))]
                      else []);
              data = (if has_children
                      then getChildrenDataDefinition h (JArr (case so_children a of Some cs \<Rightarrow> cs | None \<Rightarrow> []))
                      else case so_masterobject a of
                             Some m \<Rightarrow> getDataDefinition h (masterobject_js m)
                           | None \<Rightarrow> getDataDefinition h (properties_js (so_properties a)))
          in bindE (data_loop data details st data)
               (\<lambda>(details', st').
                  bindE (prepareItem h
                           [(''id'', JStr (so_id a)),
                            (''isMasterObject'', master_id_of (so_masterobject a)),
                            (''details'', JObj details'),
                            (''errors'', JArr (so_errors a)),
                            (''preview'', JObj [(''url'', JStr (getSingleVizUrl h app_id (so_id a) ''nointeraction,noselections''))]),
                            (''code'', JObj code)])
                    (\<lambda>prepared. Inr (prepared, st'))))"

fun sub_items :: "host \<Rightarrow> sheet list \<Rightarrow> string \<Rightarrow> sheet_object list \<Rightarrow> string \<Rightarrow> error + (jsval list \<times> string)" where
  "sub_items h sheetInfo app_id [] st = Inr ([], st)"
| "sub_items h sheetInfo app_id (a # as) st =
     bindE (sub_item h sheetInfo app_id a st)
       (\<lambda>(p, st'). bindE (sub_items h sheetInfo app_id as st')
          (\<lambda>(ps, st''). Inr (JObj p # ps, st'')))"

text \<open>
  The callback mapped over the unique objects builds the item of one visualization type.
  First its \<open>details\<close> and the \<open>item\<close> as the object literals give them.
\<close>

definition group_details :: "host \<Rightarrow> bool \<Rightarrow> sheet_object \<Rightarrow> extension \<Rightarrow> jsval \<Rightarrow> jsobj" where
  "group_details h isSingleItem first extensionMetadata sheetsValue =
     [(''masterobject'', detail (translator_get h ''properties.masterItem'')
         (js_or (if isSingleItem then master_title_of (so_masterobject first) else JBool False) JNull)),
      (''version'', detail (translator_get h ''geo.properties.wms.version'')
         (js_or (ext_version extensionMetadata) JNull)),
      (''title'', detail (translator_get h ''Common.Title'')
         (expression_or_text (title (so_properties first)))),
      (''subtitle'', detail (translator_get h ''properties.subtitle'')
         (expression_or_text (subtitle (so_properties first)))),
      (''description'', detail (translator_get h ''Common.Description'')
         (js_or (ext_description extensionMetadata) JNull)),
      (''author'', detail (translator_get h ''Author'')
         (js_or (ext_author extensionMetadata) JNull)),
      (''bundle'', detail (translator_get h ''Bundle'')
         (js_or (if truthy (ext_bundle extensionMetadata)
                 then getv (ext_bundle extensionMetadata) ''name''
                 else ext_bundle extensionMetadata) JNull)),
      (''sheets'', detail (translator_get h ''Common.Sheets'') sheetsValue)]"

definition group_item ::
  "sheet_object \<Rightarrow> bool \<Rightarrow> bool \<Rightarrow> sheet_object \<Rightarrow> sheet_object list \<Rightarrow> extension \<Rightarrow> jsobj \<Rightarrow> jsobj" where
  "group_item template isSingleItem hasError first objects extensionMetadata details =
     [(''id'', JStr (so_type template)),
      (''label'', JStr (if ext_name extensionMetadata \<noteq> []
                        then ext_name extensionMetadata
                        else meta_name (so_meta template))),
      (''icon'', JStr (if hasError then ''debug'' else [])),
      (''isThirdParty'', JBool (meta_isThirdParty (so_meta template))),
      (''isMasterObject'', (if isSingleItem then master_id_of (so_masterobject first) else JBool False)),
      (''count'', JNum (if isSingleItem then 0 else int (length objects))),
      (''details'', JObj details),
      (''errors'', (if isSingleItem then JArr (so_errors first) else JBool False)),
      (''searchTerms'', JStr [])]"

text \<open>The two branches: several objects of the type, or a single one.\<close>

definition multi_item :: "host \<Rightarrow> sheet list \<Rightarrow> string \<Rightarrow> sheet_object list \<Rightarrow> jsobj \<Rightarrow> jsobj \<Rightarrow> error + jsobj" where
  "multi_item h sheetInfo app_id objects details item =
     bindE (sub_items h sheetInfo app_id objects [])
       (\<lambda>(items, st).
          Inr (AList.update ''items'' (JArr items)
                (AList.update ''searchTerms'' (JStr st)
                  (AList.update ''details''
                     (JObj (filter (\<lambda>(k, v). k \<noteq> ''title'' \<and> k \<noteq> ''subtitle'') details))
                     item))))"

definition single_item :: "host \<Rightarrow> string \<Rightarrow> sheet_object \<Rightarrow> jsobj \<Rightarrow> jsobj \<Rightarrow> error + jsobj" where
  "single_item h app_id first details item =
     (case so_children first of
        None \<Rightarrow> Inl TypeError
      | Some cs \<Rightarrow>
          let item1 = AList.update ''properties'' (properties_js (so_properties first)) item;
              item2 = (if cs \<noteq> [] then AList.update ''children'' (JArr cs) item1 else item1);
              data = (if cs \<noteq> [] then getChildrenDataDefinition h (JArr cs)
                      else getDataDefinition h (properties_js (so_properties first)))
          in bindE (data_loop data details [] data)
               (\<lambda>(details', st).
                  Inr (AList.update ''preview''
                         (JObj [(''url'', JStr (getSingleVizUrl h app_id (qId (qInfo (so_properties first))) ''nointeraction,noselections''))])
                         (AList.update ''searchTerms'' (JStr st)
                           (AList.update ''details'' (JObj details') item2)))))"

definition unique_item ::
  "host \<Rightarrow> sheet list \<Rightarrow> (string \<rightharpoonup> extension) \<Rightarrow> string \<Rightarrow> sheet_object list \<Rightarrow> sheet_object \<Rightarrow> error + jsobj" where
  "unique_item h sheetInfo extensionList app_id sheetObjects template =
     (let objects = filter (\<lambda>a. so_type template = so_type a) sheetObjects;
          isMultipleItems = (length objects > 1);
          isSingleItem = (\<not> isMultipleItems)
      in case objects of
           [] \<Rightarrow> Inl TypeError
         | first # _ \<Rightarrow>
             let hasError = ((isSingleItem \<and> so_errors first \<noteq> []) \<or>
                             (isMultipleItems \<and> (\<exists>item \<in> set objects. so_errors item \<noteq> [])));
                 sheets = map (\<lambda>a. find (\<lambda>b. sheet_id b = so_sheet a) sheetInfo) objects;
                 extensionMetadata = (case extensionList (meta_template (so_meta template)) of
                                        Some e \<Rightarrow> e | None \<Rightarrow> no_extension)
             in bindE (sheets_value sheets)
                  (\<lambda>sheetsValue.
                     let details = group_details h isSingleItem first extensionMetadata sheetsValue;
                         item = group_item template isSingleItem hasError first objects extensionMetadata details
                     in if isMultipleItems then multi_item h sheetInfo app_id objects details item
                        else single_item h app_id first details item))"

text \<open>
  \<open>items.sort(function (a, b) { return a.label.toLowerCase().localeCompare(b.label.toLowerCase()) })\<close>.
  The comparison of the locale is that of a collation key; the sort is stable. With two
  items or more the callback reads every label, and a label that is no string throws.
\<close>

definition string_of :: "jsval \<Rightarrow> string" where
  "string_of v = (case v of JStr s \<Rightarrow> s | _ \<Rightarrow> [])"

definition label_key :: "host \<Rightarrow> (string \<Rightarrow> 'k) \<Rightarrow> jsobj \<Rightarrow> 'k" where
  "label_key h collate item = collate (toLowerCase h (string_of (oget item ''label'')))"

definition sort_by_label :: "host \<Rightarrow> (string \<Rightarrow> 'k :: linorder) \<Rightarrow> jsobj list \<Rightarrow> error + jsobj list" where
  "sort_by_label h collate items =
     (if length items \<ge> 2 \<and> (\<exists>item \<in> set items. case oget item ''label'' of JStr s \<Rightarrow> False | _ \<Rightarrow> True)
      then Inl TypeError
      else Inr (sort_key (label_key h collate) items))"

definition getUniqueAppObjectsFromSheets ::
  "host \<Rightarrow> (string \<Rightarrow> 'k :: linorder) \<Rightarrow> sheet list \<Rightarrow> (string \<rightharpoonup> extension) \<Rightarrow> string \<Rightarrow> error + jsobj list" where
  "getUniqueAppObjectsFromSheets h collate sheetInfo extensionList app_id =
     (let sheetObjects = concat (map sheet_objects sheetInfo)
      in bindE (mapE (unique_item h sheetInfo extensionList app_id sheetObjects) (uniq so_type sheetObjects))
           (\<lambda>items. bindE (sort_by_label h collate items) (mapE (prepareItem h))))"

section \<open>getSheetInfo\<close>

text \<open>
  The callback applied to the sheet list once the host has answered: every element but
  the first gets a preview.
\<close>

definition getSheetInfo :: "host \<Rightarrow> string \<Rightarrow> sheet list \<Rightarrow> sheet list" where
  "getSheetInfo h app_id info =
     map (\<lambda>(index, a).
            if index \<noteq> 0
            then a\<lparr>preview := JObj [(''url'', JStr (getSingleSheetUrl h app_id (sheet_id a)
                                                    ''nointeraction,noselections''))]\<rparr>
            else a)
         (enumerate 0 info)"

section \<open>The search filter\<close>

text \<open>\<open>s.indexOf(q)\<close>: the first position at which \<open>q\<close> occurs in \<open>s\<close>, or \<open>-1\<close>.\<close>

fun index_from :: "nat \<Rightarrow> string \<Rightarrow> string \<Rightarrow> int" where
  "index_from i [] q = (if q = [] then int i else - 1)"
| "index_from i (c # s) q = (if prefix q (c # s) then int i else index_from (Suc i) s q)"

definition indexOf :: "string \<Rightarrow> string \<Rightarrow> int" where
  "indexOf s q = index_from 0 s q"

definition matchSearchQuery :: "host \<Rightarrow> string \<Rightarrow> jsval \<Rightarrow> bool" where
  "matchSearchQuery h query input =
     (truthy input \<and> - 1 \<noteq> indexOf (toLowerCase h (js_string input)) (toLowerCase h query))"

text \<open>The part of the modal's scope that the search touches.\<close>

record scope =
  activeAsset :: string
  allItems :: "(string \<times> jsobj list) list"
  filteredItems :: "(string \<times> jsobj list) list"
  selected :: "jsobj list"

definition items_of :: "(string \<times> jsobj list) list \<Rightarrow> string \<Rightarrow> jsobj list" where
  "items_of al i = (case map_of al i of Some items \<Rightarrow> items | None \<Rightarrow> [])"

definition query_filter :: "host \<Rightarrow> string \<Rightarrow> jsobj \<Rightarrow> bool" where
  "query_filter h query a =
     (query = [] \<or> matchSearchQuery h query (oget a ''id'') \<or> matchSearchQuery h query (oget a ''label'')
      \<or> matchSearchQuery h query (oget a ''searchTerms''))"

text \<open>
  The watcher of \<open>search.query\<close>: every category is filtered, then \<open>assetClicked\<close> shows the
  filtered list of the active asset. (\<open>assetClicked\<close> also moves the active item, which is
  not part of this record.)
\<close>

definition search_watch :: "host \<Rightarrow> string \<Rightarrow> scope \<Rightarrow> scope" where
  "search_watch h query sc =
     (let filtered = foldl (\<lambda>f i. AList.update i (filter (query_filter h query) (items_of (allItems sc) i)) f)
                       (filteredItems sc) (map fst (allItems sc))
      in sc\<lparr>filteredItems := filtered,
             selected := (if activeAsset sc \<in> fst ` set filtered
                          then items_of filtered (activeAsset sc) else selected sc)\<rparr>)"

section \<open>openApp\<close>

text \<open>
  \<open>_apps\<close> is a plain object that serves as a dictionary from app identifiers to
  promises: a map, for every key but the two property names \<open>__proto__\<close> and
  \<open>hasOwnProperty\<close> (see \<open>dictionary_key\<close> below). A promise is known by the
  number it got when it was created; \<open>opened\<close> lists the calls of \<open>qlik.openApp\<close>. The
  argument is nothing at all, an app object (which has an \<open>id\<close>), or an identifier.
\<close>

record session =
  apps :: "string \<rightharpoonup> nat"
  opened :: "string list"
  fresh :: nat

datatype app_arg = NoApp | AppObject string | AppId string

definition new_promise :: "session \<Rightarrow> nat \<times> session" where
  "new_promise s = (fresh s, s\<lparr>fresh := Suc (fresh s)\<rparr>)"

definition openApp :: "string \<Rightarrow> app_arg \<Rightarrow> session \<Rightarrow> nat option \<times> session" where
  "openApp currApp_id arg s =
     (case arg of
        NoApp \<Rightarrow> (let (p, t) = new_promise s in (Some p, t))
      | AppObject a \<Rightarrow> (let (p, t) = new_promise s in (Some p, t))
      | AppId appId \<Rightarrow>
          if appId = [] then (let (p, t) = new_promise s in (Some p, t))
          else
            let s1 = (if apps s currApp_id = None
                      then (let (p, t) = new_promise s in t\<lparr>apps := (apps t)(currApp_id \<mapsto> p)\<rparr>)
                      else s);
                s2 = (if apps s1 appId = None
                      then (let (p, t) = new_promise (s1\<lparr>opened := opened s1 @ [appId]\<rparr>)
                            in t\<lparr>apps := (apps t)(appId \<mapsto> p)\<rparr>)
                      else s1)
            in (apps s2 appId, s2))"

text \<open>A series of calls, with the promises they return.\<close>

fun open_all :: "string \<Rightarrow> app_arg list \<Rightarrow> session \<Rightarrow> nat option list \<times> session" where
  "open_all currApp_id [] s = ([], s)"
| "open_all currApp_id (arg # args) s =
     (let (p, s1) = openApp currApp_id arg s; (ps, s2) = open_all currApp_id args s1
      in (p # ps, s2))"

definition new_session :: session where
  "new_session = \<lparr>apps = Map.empty, opened = [], fresh = 0\<rparr>"

section \<open>The controller\<close>
















section \<open>Loading the inspector\<close>

text \<open>
  What a query resolves to: a list of display items, the sheet list, or something that
  is no array. A sheet is shown through its display fields.
\<close>

datatype answer = Items "jsobj list" | SheetInfo "sheet list" | NoArray jsval

definition sheet_item :: "sheet \<Rightarrow> jsobj" where
  "sheet_item sh =
     [(''id'', JStr (sheet_id sh)), (''label'', JStr (sheet_label sh))] @
     (if preview sh = JUndefined then [] else [(''preview'', preview sh)]) @ sheet_other sh"

definition inspected :: "string list" where
  "inspected = [''app'', ''script'', ''field'', ''sheet'', ''dimension'', ''measure'', ''masterObject'',
                ''alternate-state'', ''variable'', ''bookmark'']"

text \<open>\<open>$q.all\<close> over the named promises: all their values, or a rejection.\<close>

definition q_all :: "(string \<Rightarrow> error + 'a) \<Rightarrow> string list \<Rightarrow> error + (string \<times> 'a) list" where
  "q_all outcome names = mapE (\<lambda>n. bindE (outcome n) (\<lambda>v. Inr (n, v))) names"

text \<open>
  The loop \<open>for (i in args)\<close> of the last callback: every array is prepared into
  \<open>$scope.allItems[i]\<close>. An exception leaves what has been stored so far. The entry
  \<open>args.extensionList\<close> is an object keyed by the name of the extension, no array, and
  the loop passes over it.
\<close>

fun prepare_all :: "host \<Rightarrow> (string \<times> answer) list \<Rightarrow> (string \<times> jsobj list) list
    \<Rightarrow> (string \<times> jsobj list) list \<times> error option" where
  "prepare_all h [] acc = (acc, None)"
| "prepare_all h ((i, a) # args) acc =
     (case a of
        NoArray v \<Rightarrow> prepare_all h args acc
      | Items xs \<Rightarrow>
          (case mapE (prepareItem h) xs of
             Inl e \<Rightarrow> (acc, Some e)
           | Inr ys \<Rightarrow> prepare_all h args (AList.update i ys acc))
      | SheetInfo shs \<Rightarrow>
          (case mapE (prepareItem h) (map sheet_item shs) of
             Inl e \<Rightarrow> (acc, Some e)
           | Inr ys \<Rightarrow> prepare_all h args (AList.update i ys acc)))"

text \<open>
  The items derived from the sheets: \<open>uniqObjects\<close>, split on \<open>isThirdParty\<close> into the
  charts and the extensions.
\<close>

definition derive_objects ::
  "host \<Rightarrow> (string \<Rightarrow> 'k :: linorder) \<Rightarrow> string \<Rightarrow> (string \<times> answer) list \<Rightarrow> (string \<rightharpoonup> extension)
    \<Rightarrow> (string \<times> jsobj list) list \<Rightarrow> (string \<times> jsobj list) list \<times> error option" where
  "derive_objects h collate app_id args extensionList acc =
     (case map_of args ''sheet'' of
        Some (SheetInfo shs) \<Rightarrow>
          (case getUniqueAppObjectsFromSheets h collate shs extensionList app_id of
             Inl e \<Rightarrow> (acc, Some e)
           | Inr uniqObjects \<Rightarrow>
               (AList.update ''extension'' (filter (\<lambda>a. truthy (oget a ''isThirdParty'')) uniqObjects)
                  (AList.update ''chart'' (filter (\<lambda>a. \<not> truthy (oget a ''isThirdParty'')) uniqObjects) acc),
                None))
      | _ \<Rightarrow> (acc, Some TypeError))"

text \<open>
  The chain of promises up to the point where \<open>$scope.allItems\<close> holds every category
  that comes from the host: the ten queries, then the extension list, then the callback
  above. \<open>$scope.allItems\<close> starts empty. (The callback goes on to mark the default
  bookmark, to set up the search and to collect the errors under the key \<open>errors\<close>;
  that is not part of \<open>load_items\<close>.)
\<close>

definition load_items ::
  "host \<Rightarrow> (string \<Rightarrow> 'k :: linorder) \<Rightarrow> string \<Rightarrow> (string \<Rightarrow> error + answer)
    \<Rightarrow> error + (string \<rightharpoonup> extension) \<Rightarrow> (string \<times> jsobj list) list \<times> error option" where
  "load_items h collate app_id outcome extensions =
     (case q_all outcome inspected of
        Inl e \<Rightarrow> ([], Some e)
      | Inr args \<Rightarrow>
          (case extensions of
             Inl e \<Rightarrow> ([], Some e)
           | Inr extensionList \<Rightarrow>
               (case prepare_all h args [] of
                  (acc, Some e) \<Rightarrow> (acc, Some e)
                | (acc, None) \<Rightarrow> derive_objects h collate app_id args extensionList acc)))"

section \<open>The properties to prove\<close>

text \<open>The value is a string; the value is an array.\<close>

definition is_string :: "jsval \<Rightarrow> bool" where
  "is_string v = (case v of JStr s \<Rightarrow> True | _ \<Rightarrow> False)"

definition is_array :: "jsval \<Rightarrow> bool" where
  "is_array v = (case v of JArr xs \<Rightarrow> True | _ \<Rightarrow> False)"

text \<open>A row of the details as the specification describes it: a record of \<open>name\<close>, \<open>label\<close>, \<open>value\<close> and
  \<open>isCode\<close>, where \<open>value\<close> is an array.\<close>

definition is_row :: "jsval \<Rightarrow> bool" where
  "is_row r = (case r of
       JObj kvs \<Rightarrow> map fst kvs = [''name'', ''label'', ''value'', ''isCode''] \<and>
                   is_string (oget kvs ''name'') \<and> is_array (oget kvs ''value'') \<and>
                   (oget kvs ''isCode'' = JBool True \<or> oget kvs ''isCode'' = JBool False)
     | _ \<Rightarrow> False)"

text \<open>A scalar wrapped in a singleton array.\<close>

definition wrap :: "jsval \<Rightarrow> jsval" where
  "wrap v = (if is_array v then v else JArr [v])"

text \<open>The specification's words for the rows that are shown: the value is \<open>false\<close> or has a non-zero
  length.\<close>

definition nonzero_length :: "jsval \<Rightarrow> bool" where
  "nonzero_length v = (case v of JStr s \<Rightarrow> s \<noteq> [] | JArr xs \<Rightarrow> xs \<noteq> []
      | JObj kvs \<Rightarrow> truthy (oget kvs ''length'') | _ \<Rightarrow> False)"

definition displayed :: "jsval \<Rightarrow> bool" where
  "displayed v = (v = JBool False \<or> nonzero_length v)"

text \<open>The value of a detail entry: its own \<open>value\<close> if it has one, else the entry itself.\<close>

definition value_of :: "jsval \<Rightarrow> jsval" where
  "value_of e = (case e of JObj kvs \<Rightarrow> if ''value'' \<in> fst ` set kvs then oget kvs ''value'' else e | _ \<Rightarrow> e)"

text \<open>The entry does not define a key \<open>hasOwnProperty\<close> of its own.\<close>

definition unshadowed :: "jsval \<Rightarrow> bool" where
  "unshadowed e = (case e of JObj kvs \<Rightarrow> ''hasOwnProperty'' \<notin> fst ` set kvs | _ \<Rightarrow> True)"

text \<open>The condition under which the loop of \<open>prepareItem\<close> pushes a row for an entry.\<close>

definition row_ok :: "jsval \<Rightarrow> bool" where
  "row_ok e = (e \<noteq> JNull \<and> e \<noteq> JUndefined \<and> (\<exists>v. entry_value e = Inr v \<and> shown v))"

text \<open>The visualizations of all the sheets, in order; the type of one; the number of those of a type.\<close>

definition all_visualizations :: "sheet list \<Rightarrow> visualization list" where
  "all_visualizations sheetInfo =
     concat (map (\<lambda>sh. case visualizations sh of Some vs \<Rightarrow> vs | None \<Rightarrow> []) sheetInfo)"

definition vis_type :: "visualization \<Rightarrow> string" where
  "vis_type v = qType (qInfo (vis_properties v))"

definition type_count :: "sheet list \<Rightarrow> string \<Rightarrow> nat" where
  "type_count sheetInfo t = length (filter (\<lambda>v. vis_type v = t) (all_visualizations sheetInfo))"

text \<open>The id of a display item.\<close>

definition item_id :: "jsobj \<Rightarrow> jsval" where
  "item_id item = oget item ''id''"



text \<open>The sheet object was made from the visualization.\<close>

definition from_vis :: "visualization \<Rightarrow> sheet_object \<Rightarrow> bool" where
  "from_vis v a \<longleftrightarrow> so_id a = cell_name v \<and> so_properties a = vis_properties v \<and>
     so_children a = children v \<and> so_errors a = errors v"

text \<open>The specification's words for the search: the query occurs in the field, case ignored. A field
  that is missing or empty is not searched.\<close>

definition contains_ci :: "host \<Rightarrow> string \<Rightarrow> jsval \<Rightarrow> bool" where
  "contains_ci h query v = (truthy v \<and> sublist (toLowerCase h query) (toLowerCase h (js_string v)))"

definition query_matches :: "host \<Rightarrow> string \<Rightarrow> jsobj \<Rightarrow> bool" where
  "query_matches h query a =
     (query = [] \<or> contains_ci h query (oget a ''id'') \<or> contains_ci h query (oget a ''label'') \<or>
      contains_ci h query (oget a ''searchTerms''))"

text \<open>Lower-casing maps only the empty string to the empty string.\<close>

definition lowering :: "host \<Rightarrow> bool" where
  "lowering h = (\<forall>s. toLowerCase h s = [] \<longleftrightarrow> s = [])"

text \<open>
  The keys under which a plain object is a dictionary: \<open>__proto__\<close> names its prototype and
  \<open>hasOwnProperty\<close> the method that \<open>openApp\<close> calls on \<open>_apps\<close>, and neither is the
  identifier of an app. The identifiers of a series of calls.
\<close>

definition dictionary_key :: "string \<Rightarrow> bool" where
  "dictionary_key a = (a \<noteq> ''__proto__'' \<and> a \<noteq> ''hasOwnProperty'')"

definition identifiers :: "app_arg list \<Rightarrow> string list" where
  "identifiers args = concat (map (\<lambda>arg. case arg of AppId a \<Rightarrow> [a] | _ \<Rightarrow> []) args)"

text \<open>The invariant of the cache: \<open>qlik.openApp\<close> was called at most once per identifier, and every
  identifier it was called for is in the cache.\<close>

definition cache_ok :: "session \<Rightarrow> bool" where
  "cache_ok s = (distinct (opened s) \<and> (\<forall>a \<in> set (opened s). apps s a \<noteq> None))"


text \<open>The array that a query's answer holds, if it is one.\<close>

definition answer_items :: "answer \<Rightarrow> jsobj list option" where
  "answer_items a =
     (case a of Items xs \<Rightarrow> Some xs | SheetInfo shs \<Rightarrow> Some (map sheet_item shs) | NoArray v \<Rightarrow> None)"

text \<open>The test \<open>a.isThirdParty\<close> of the two filters on \<open>uniqObjects\<close>.\<close>

definition third_party :: "jsobj \<Rightarrow> bool" where
  "third_party a = truthy (oget a ''isThirdParty'')"

section \<open>Examples\<close>

text \<open>A host for the examples: no translation, ASCII case mapping, no URL encoding, and a data
  definition that lists the \<open>fields\<close> of the properties.\<close>

definition upper_char :: "char \<Rightarrow> char" where
  "upper_char c = (if 97 \<le> (of_char c :: nat) \<and> (of_char c :: nat) \<le> 122 then char_of ((of_char c :: nat) - 32) else c)"

definition lower_char :: "char \<Rightarrow> char" where
  "lower_char c = (if 65 \<le> (of_char c :: nat) \<and> (of_char c :: nat) \<le> 90 then char_of ((of_char c :: nat) + 32) else c)"

definition plain_host :: host where
  "plain_host = \<lparr>translator_get = (\<lambda>s. s), stringify = (\<lambda>v. JStr (js_string v)),
      toUpperCase = map upper_char, toLowerCase = map lower_char,
      encodeURIComponent = (\<lambda>s. s), baseURI = ''http://localhost:4848/'',
      getDataDefinition = (\<lambda>v. case getv v ''fields'' of
          JArr fs \<Rightarrow> [(''fields'', JObj [(''label'', JStr ''Fields''), (''value'', JArr fs)])]
        | _ \<Rightarrow> []),
      getChildrenDataDefinition = (\<lambda>v. [])\<rparr>"

text \<open>The comparison of the examples: by character code.\<close>

definition codes :: "string \<Rightarrow> nat list" where
  "codes s = map of_char s"

text \<open>An item with details of every kind, and what \<open>prepareItem\<close> makes of it.\<close>

definition sample_item :: jsobj where
  "sample_item =
     [(''id'', JStr ''a''),
      (''details'', JObj [(''title'', JObj [(''label'', JStr ''Title''), (''value'', JStr ''Sales'')]),
         (''version'', JObj [(''label'', JStr ''Version''), (''value'', JNull)]),
         (''tags'', JObj [(''value'', JArr [JStr ''$key'', JStr ''$text''])]),
         (''flag'', JBool False), (''n'', JNum 0)]),
      (''layout'', JObj [])]"

definition sample_item_prepared :: jsobj where
  "sample_item_prepared =
     [(''id'', JStr ''a''),
      (''details'',
       JArr
        [JObj
          [(''name'', JStr ''title''), (''label'', JStr ''Title''),
           (''value'', JArr [JStr ''Sales'']), (''isCode'', JBool False)],
         JObj
          [(''name'', JStr ''tags''), (''label'', JStr ''Tags''),
           (''value'', JArr [JStr ''$key'', JStr ''$text'']),
           (''isCode'', JBool False)],
         JObj
          [(''name'', JStr ''flag''), (''label'', JStr ''Flag''),
           (''value'', JArr [JBool False]), (''isCode'', JBool False)]]),
      (''layout'', JObj []), (''searchTerms'', JStr ''$key $text ''),
      (''code'',
       JObj
        [(''layout'',
          JObj [(''label'', JStr ''Layout''), (''value'', JStr ''[object Object]'')])])]"

text \<open>Two sheets after the summary, with three visualizations of two types.\<close>

definition chart :: "string \<Rightarrow> string \<Rightarrow> string \<Rightarrow> visualization" where
  "chart name type ttl =
     \<lparr>cell_name = name, errors = [],
      vis_properties = \<lparr>qInfo = \<lparr>qId = name, qType = type\<rparr>, title = JStr ttl, subtitle = JStr [],
                        extensionMeta = None, other_properties = []\<rparr>,
      children = Some [], vis_masterobject = None\<rparr>"

definition sample_sheets :: "sheet list" where
  "sample_sheets =
     [\<lparr>sheet_id = ''summary'', sheet_label = ''Summary'', visualizations = None,
       preview = JUndefined, sheet_other = []\<rparr>,
      \<lparr>sheet_id = ''s1'', sheet_label = ''Sales'',
       visualizations = Some [chart ''t1'' ''table'' ''Orders'', chart ''b1'' ''Barchart'' ''Revenue''],
       preview = JUndefined, sheet_other = []\<rparr>,
      \<lparr>sheet_id = ''s2'', sheet_label = ''Costs'',
       visualizations = Some [chart ''b2'' ''Barchart'' []],
       preview = JUndefined, sheet_other = []\<rparr>]"

definition sample_objects :: "jsobj list" where
  "sample_objects =
     (case getUniqueAppObjectsFromSheets plain_host codes sample_sheets Map.empty ''app1'' of
        Inr items \<Rightarrow> items | Inl e \<Rightarrow> [])"

text \<open>
  A sheet list with a chart and a third-party extension, and the answers of the ten
  queries: the app properties, a field and the sheets, and empty lists otherwise. In
  \<open>failed_outcome\<close> the query of the bookmarks is rejected.
\<close>

definition gauge :: visualization where
  "gauge = (chart ''g1'' ''my-gauge'' ''Speed'')
     \<lparr>vis_properties := (vis_properties (chart ''g1'' ''my-gauge'' ''Speed''))
        \<lparr>extensionMeta := Some \<lparr>meta_name = ''My gauge'', meta_template = ''my-gauge'',
                                 meta_isThirdParty = True\<rparr>\<rparr>\<rparr>"

definition mixed_sheets :: "sheet list" where
  "mixed_sheets =
     [\<lparr>sheet_id = ''summary'', sheet_label = ''Summary'', visualizations = None,
       preview = JUndefined, sheet_other = []\<rparr>,
      \<lparr>sheet_id = ''s1'', sheet_label = ''Sales'',
       visualizations = Some [chart ''t1'' ''table'' ''Orders'', gauge],
       preview = JUndefined, sheet_other = []\<rparr>]"

definition mixed_objects :: "jsobj list" where
  "mixed_objects =
     (case getUniqueAppObjectsFromSheets plain_host codes mixed_sheets Map.empty ''app1'' of
        Inr items \<Rightarrow> items | Inl e \<Rightarrow> [])"

definition app_props :: jsobj where
  "app_props = [(''id'', JStr ''AppPropsList''), (''label'', JStr ''App properties''), (''layout'', JObj [])]"

definition sample_outcome :: "string \<Rightarrow> error + answer" where
  "sample_outcome n =
     (if n = ''sheet'' then Inr (SheetInfo mixed_sheets)
      else if n = ''app'' then Inr (Items [app_props])
      else if n = ''field'' then Inr (Items [sample_item])
      else Inr (Items []))"

definition failed_outcome :: "string \<Rightarrow> error + answer" where
  "failed_outcome n = (if n = ''bookmark'' then Inl TypeError else sample_outcome n)"

definition sample_loaded :: "(string \<times> jsobj list) list" where
  "sample_loaded = fst (load_items plain_host codes ''app1'' sample_outcome (Inr Map.empty))"

text \<open>A scope with two charts, for the search.\<close>

definition bar_item :: jsobj where
  "bar_item = [(''id'', JStr ''barchart''), (''label'', JStr ''Bar chart''), (''searchTerms'', JStr ''Year '')]"

definition table_item :: jsobj where
  "table_item = [(''id'', JStr ''table''), (''label'', JStr ''Table''), (''searchTerms'', JStr ''Country '')]"

definition sample_scope :: scope where
  "sample_scope = \<lparr>activeAsset = ''chart'', allItems = [(''chart'', [bar_item, table_item])],
     filteredItems = [], selected = []\<rparr>"

text \<open>A series of calls of \<open>openApp\<close>.\<close>

definition sample_calls :: "app_arg list" where
  "sample_calls = [AppId ''app1'', AppId ''app2'', AppId ''app1'', NoApp, AppId ''app2'']"

lemma bindE_Inr [simp]: "bindE (Inr x) f = f x" by (simp add: bindE_def)
lemma bindE_Inl [simp]: "bindE (Inl e) f = Inl e" by (simp add: bindE_def)
lemma bindE_eq_Inr: "bindE m f = Inr y \<longleftrightarrow> (\<exists>x. m = Inr x \<and> f x = Inr y)"
  by (cases m) simp_all

lemma oget_update: "oget (AList.update k v al) k' = (if k' = k then v else oget al k')"
  by (simp add: oget_def update_conv')

lemma keys_update: "fst ` set (AList.update k v al) = insert k (fst ` set al)"
  by (simp add: dom_update)

lemma detail_row_name: "detail_row h i e v = Inr r \<Longrightarrow> getv r ''name'' = JStr i"
  by (auto simp: detail_row_def bindE_eq_Inr oget_def split: if_splits)

lemma detail_step_names:
  assumes "detail_step h d i e = Inr rs" "(i, e) \<in> set (own_entries d)"
  shows "(\<forall>r\<in>set rs. getv r ''name'' = JStr i) \<and> (rs \<noteq> [] \<longleftrightarrow> row_ok e)"
  using assms
  by (cases d) (auto simp: detail_step_def bindE_eq_Inr hasOwnProperty_def row_ok_def
      image_iff split: if_splits dest: detail_row_name)

lemma detail_rows_names:
  assumes "detail_rows h d es = Inr rows" "set es \<subseteq> set (own_entries d)"
  shows "(\<exists>r\<in>set rows. getv r ''name'' = JStr k) \<longleftrightarrow> (\<exists>e. (k, e) \<in> set es \<and> row_ok e)"
  using assms
proof (induction es arbitrary: rows)
  case Nil
  then show ?case by simp
next
  case (Cons p es)
  obtain i e where p: "p = (i, e)" by (cases p)
  from Cons.prems p obtain r rs where
    r: "detail_step h d i e = Inr r" and rs: "detail_rows h d es = Inr rs" and rows: "rows = r @ rs"
    by (auto simp: bindE_eq_Inr)
  have ie: "(i, e) \<in> set (own_entries d)" and sub: "set es \<subseteq> set (own_entries d)"
    using Cons.prems p by auto
  note st = detail_step_names [OF r ie]
  note ih = Cons.IH [OF rs sub]
  have here: "(\<exists>x\<in>set r. getv x ''name'' = JStr k) \<longleftrightarrow> (i = k \<and> row_ok e)"
  proof (cases r)
    case Nil
    with st show ?thesis by simp
  next
    case (Cons x xs)
    with st show ?thesis by auto
  qed
  have "(\<exists>x\<in>set rows. getv x ''name'' = JStr k) \<longleftrightarrow>
        (\<exists>x\<in>set r. getv x ''name'' = JStr k) \<or> (\<exists>x\<in>set rs. getv x ''name'' = JStr k)"
    unfolding rows by auto
  also have "\<dots> \<longleftrightarrow> (i = k \<and> row_ok e) \<or> (\<exists>e. (k, e) \<in> set es \<and> row_ok e)"
    using here ih by simp
  also have "\<dots> \<longleftrightarrow> (\<exists>e'. (k, e') \<in> set (p # es) \<and> row_ok e')"
    unfolding p by auto
  finally show ?case .
qed

lemma shown_displayed: "shown v = displayed v"
  by (cases v) (auto simp: shown_def displayed_def nonzero_length_def)

lemma entry_value_unshadowed: "unshadowed e \<Longrightarrow> entry_value e = Inr (value_of e)"
proof (cases e)
  case (JObj kvs)
  assume "unshadowed e"
  with JObj have "map_of kvs ''hasOwnProperty'' = None"
    by (simp add: unshadowed_def map_of_eq_None_iff)
  with JObj show ?thesis by (simp add: entry_value_def value_of_def)
qed (simp_all add: entry_value_def value_of_def)

lemma detail_row_shape: "detail_row h i e v = Inr r \<Longrightarrow> is_row r \<and> getv r ''value'' = wrap v"
  by (cases v) (auto simp: detail_row_def bindE_eq_Inr is_row_def oget_def is_string_def is_array_def wrap_def split: if_splits)

lemma detail_step_shape:
  assumes "detail_step h d i e = Inr rs" "r \<in> set rs"
  shows "is_row r \<and> (\<exists>v. entry_value e = Inr v \<and> getv r ''value'' = wrap v)"
  using assms
  by (auto simp: detail_step_def bindE_eq_Inr split: if_splits dest: detail_row_shape)

lemma detail_rows_shape:
  assumes "detail_rows h d es = Inr rows" "r \<in> set rows"
  shows "is_row r \<and> (\<exists>k e v. (k, e) \<in> set es \<and> entry_value e = Inr v \<and> getv r ''value'' = wrap v)"
  using assms
proof (induction es arbitrary: rows)
  case Nil
  then show ?case by simp
next
  case (Cons p es)
  obtain i e where p: "p = (i, e)" by (cases p)
  from Cons.prems p obtain r1 rs where
    r1: "detail_step h d i e = Inr r1" and rs: "detail_rows h d es = Inr rs" and rows: "rows = r1 @ rs"
    by (auto simp: bindE_eq_Inr)
  from Cons.prems(2) rows consider "r \<in> set r1" | "r \<in> set rs" by auto
  then show ?case
  proof cases
    case 1
    from detail_step_shape [OF r1 1] show ?thesis unfolding p by auto
  next
    case 2
    from Cons.IH [OF rs 2] show ?thesis by auto
  qed
qed

lemma code_from_cases:
  assumes "code_from h k lbl nt item = Inr item'"
  shows "item' = item \<or> (\<exists>v. item' = AList.update ''code'' v item)"
proof -
  from assms obtain own where own: "hasOwnProperty item k = Inr own"
    by (auto simp: code_from_def bindE_eq_Inr)
  show ?thesis
  proof (cases "own \<and> (nt \<longrightarrow> truthy (oget item k))")
    case False
    with assms own show ?thesis by (simp add: code_from_def)
  next
    case True
    show ?thesis
    proof (cases "oget item ''code''")
      case (JObj c)
      with assms own True obtain there where "hasOwnProperty c k = Inr there"
        by (auto simp: code_from_def bindE_eq_Inr)
      with assms own True JObj show ?thesis
        by (cases there) (auto simp: code_from_def)
    qed (use assms own True in \<open>simp_all add: code_from_def\<close>)
  qed
qed

lemma code_from_other:
  assumes "code_from h k lbl nt item = Inr item'" "k' \<noteq> ''code''"
  shows "oget item' k' = oget item k'"
  using code_from_cases [OF assms(1)] assms(2) by (auto simp: oget_update)

lemma code_from_keys:
  assumes "code_from h k lbl nt item = Inr item'" "''code'' \<in> fst ` set item"
  shows "fst ` set item' = fst ` set item"
  using code_from_cases [OF assms(1)] assms(2)
  by (elim disjE exE) (simp_all add: keys_update insert_absorb)

lemma code_steps:
  assumes "bindE (code_from h ''layout'' ''Layout'' False item4)
             (\<lambda>item5. bindE (code_from h ''properties'' ''Properties'' False item5)
                (code_from h ''children'' ''Children'' True)) = Inr item'"
  shows "(\<forall>k. k \<noteq> ''code'' \<longrightarrow> oget item' k = oget item4 k) \<and>
         (''code'' \<in> fst ` set item4 \<longrightarrow> fst ` set item' = fst ` set item4)"
proof -
  from assms obtain item5 item6 where
    s1: "code_from h ''layout'' ''Layout'' False item4 = Inr item5" and
    s2: "code_from h ''properties'' ''Properties'' False item5 = Inr item6" and
    s3: "code_from h ''children'' ''Children'' True item6 = Inr item'"
    by (auto simp: bindE_eq_Inr)
  have "\<forall>k. k \<noteq> ''code'' \<longrightarrow> oget item' k = oget item4 k"
    using code_from_other [OF s1] code_from_other [OF s2] code_from_other [OF s3] by simp
  moreover have "''code'' \<in> fst ` set item4 \<longrightarrow> fst ` set item' = fst ` set item4"
    using code_from_keys [OF s1] code_from_keys [OF s2] code_from_keys [OF s3] by simp
  ultimately show ?thesis by simp
qed

lemma prepareItem_result:
  assumes "prepareItem h item = Inr item'"
  obtains st' rows where
     "add_tags (js_or (oget item ''searchTerms'') (JStr [])) (oget item ''details'') = Inr st'"
     "detail_rows h (oget item ''details'') (own_entries (js_or (oget item ''details'') (JObj []))) = Inr rows"
     "oget item' ''searchTerms'' = st'" "oget item' ''details'' = JArr rows"
     "\<And>k. k \<noteq> ''searchTerms'' \<Longrightarrow> k \<noteq> ''details'' \<Longrightarrow> k \<noteq> ''code'' \<Longrightarrow> oget item' k = oget item k"
     "fst ` set item' - {''code''} = insert ''searchTerms'' (insert ''details'' (fst ` set item)) - {''code''}"
proof -
  define st where "st = js_or (oget item ''searchTerms'') (JStr [])"
  define item1 where "item1 = AList.update ''searchTerms'' st item"
  have d1: "oget item1 ''details'' = oget item ''details''"
    by (simp add: item1_def oget_update)
  from assms obtain st' where st': "add_tags st (oget item ''details'') = Inr st'"
    by (auto simp: prepareItem_def Let_def bindE_eq_Inr st_def item1_def oget_update)
  define item2 where "item2 = AList.update ''searchTerms'' st' item1"
  have d2: "oget item2 ''details'' = oget item ''details''"
    by (simp add: item2_def oget_update d1)
  from assms st' obtain rows where
    rows: "detail_rows h (oget item ''details'') (own_entries (js_or (oget item ''details'') (JObj []))) = Inr rows"
    by (auto simp: prepareItem_def Let_def bindE_eq_Inr st_def item1_def oget_update)
  define item3 where "item3 = AList.update ''details'' (JArr rows) item2"
  have o3: "\<And>k. oget item3 k = (if k = ''details'' then JArr rows else if k = ''searchTerms'' then st' else oget item k)"
    by (simp add: item3_def item2_def item1_def oget_update)
  have k3: "fst ` set item3 = insert ''searchTerms'' (insert ''details'' (fst ` set item))"
    by (auto simp: item3_def item2_def item1_def keys_update)
  have fin: "(if \<not> truthy (oget item3 ''items'') then
                  (let item4 = AList.update ''code'' (js_or (oget item3 ''code'') (JObj [])) item3 in
                     bindE (code_from h ''layout'' ''Layout'' False item4)
                       (\<lambda>item5. bindE (code_from h ''properties'' ''Properties'' False item5)
                          (code_from h ''children'' ''Children'' True)))
                else Inr item3) = Inr item'"
    using assms st' rows
    by (simp add: prepareItem_def Let_def st_def item1_def item2_def item3_def oget_update
        split: if_splits)
  have last: "(\<forall>k. k \<noteq> ''code'' \<longrightarrow> oget item' k = oget item3 k) \<and>
        fst ` set item' - {''code''} = fst ` set item3 - {''code''}"
  proof (cases "truthy (oget item3 ''items'')")
    case True
    with fin show ?thesis by simp
  next
    case False
    define item4 where "item4 = AList.update ''code'' (js_or (oget item3 ''code'') (JObj [])) item3"
    from fin False have "bindE (code_from h ''layout'' ''Layout'' False item4)
             (\<lambda>item5. bindE (code_from h ''properties'' ''Properties'' False item5)
                (code_from h ''children'' ''Children'' True)) = Inr item'"
      by (simp add: Let_def item4_def)
    from code_steps [OF this] show ?thesis
      by (auto simp: item4_def oget_update keys_update)
  qed
  show thesis
  proof (rule that)
    show "add_tags (js_or (oget item ''searchTerms'') (JStr [])) (oget item ''details'') = Inr st'"
      using st' by (simp add: st_def)
    show "detail_rows h (oget item ''details'') (own_entries (js_or (oget item ''details'') (JObj []))) = Inr rows"
      by (rule rows)
    show "oget item' ''searchTerms'' = st'" using last o3 by simp
    show "oget item' ''details'' = JArr rows" using last o3 by simp
    show "oget item' k = oget item k" if "k \<noteq> ''searchTerms''" "k \<noteq> ''details''" "k \<noteq> ''code''" for k
      using last o3 that by simp
    show "fst ` set item' - {''code''} = insert ''searchTerms'' (insert ''details'' (fst ` set item)) - {''code''}"
      using last k3 by simp
  qed
qed

lemma add_tags_string:
  assumes "add_tags st d = Inr st'"
  shows "is_string st' \<longleftrightarrow> is_string st \<or> (truthy d \<and> truthy (getv d ''tags''))"
  using assms by (auto simp: add_tags_def bindE_eq_Inr is_string_def split: if_splits)

lemma own_entries_sub: "set (own_entries (js_or d (JObj []))) \<subseteq> set (own_entries d)"
  by (simp add: js_or_def)

text \<open>
  Claim C9. When \<open>prepareItem\<close> returns, the prepared details are an array, and it holds a
  row named \<open>k\<close> exactly if the raw details have an entry under \<open>k\<close> that is neither
  \<open>null\<close> nor \<open>undefined\<close> and whose value (its own \<open>value\<close> property if it has one, the entry
  itself otherwise: \<open>entry_value\<close>) is \<open>false\<close> or has a non-zero length. In particular
  the empty string, the empty array, \<open>null\<close>, the number 0 and \<open>true\<close> are not displayed.
\<close>

theorem prepareItem_rows_iff:
  assumes "prepareItem h item = Inr item'"
  shows "(\<exists>rows. oget item' ''details'' = JArr rows \<and>
           (\<forall>k. (\<exists>r\<in>set rows. getv r ''name'' = JStr k) \<longleftrightarrow>
              (\<exists>e. (k, e) \<in> set (own_entries (js_or (oget item ''details'') (JObj []))) \<and>
                 e \<noteq> JNull \<and> e \<noteq> JUndefined \<and> (\<exists>v. entry_value e = Inr v \<and> displayed v)))) \<and>
         \<not> displayed (JStr []) \<and> \<not> displayed (JArr []) \<and> \<not> displayed JNull \<and>
         \<not> displayed (JNum 0) \<and> \<not> displayed (JBool True)"
proof (intro conjI)
  from assms obtain st' rows where
    st': "add_tags (js_or (oget item ''searchTerms'') (JStr [])) (oget item ''details'') = Inr st'"
    and rows: "detail_rows h (oget item ''details'') (own_entries (js_or (oget item ''details'') (JObj []))) = Inr rows"
    and s: "oget item' ''searchTerms'' = st'"
    and d: "oget item' ''details'' = JArr rows"
    by (rule prepareItem_result)
  have all: "\<forall>k. (\<exists>r\<in>set rows. getv r ''name'' = JStr k) \<longleftrightarrow>
        (\<exists>e. (k, e) \<in> set (own_entries (js_or (oget item ''details'') (JObj []))) \<and>
                 e \<noteq> JNull \<and> e \<noteq> JUndefined \<and> (\<exists>v. entry_value e = Inr v \<and> displayed v))"
    using detail_rows_names [OF rows own_entries_sub]
    unfolding row_ok_def shown_displayed by (intro allI)
  show "\<exists>rows. oget item' ''details'' = JArr rows \<and>
           (\<forall>k. (\<exists>r\<in>set rows. getv r ''name'' = JStr k) \<longleftrightarrow>
              (\<exists>e. (k, e) \<in> set (own_entries (js_or (oget item ''details'') (JObj []))) \<and>
                 e \<noteq> JNull \<and> e \<noteq> JUndefined \<and> (\<exists>v. entry_value e = Inr v \<and> displayed v)))"
    by (rule exI [of _ rows]) (rule conjI [OF d all])
qed (simp_all add: displayed_def nonzero_length_def)

text \<open>
  Claim C3, as amended. When \<open>prepareItem\<close> returns, the prepared details are an array of
  rows with the fields \<open>name\<close>, \<open>label\<close>, \<open>value\<close> and \<open>isCode\<close>, in this order; the value of a
  row is the value of a raw entry, as it is when that is an array and wrapped into a
  one-element array otherwise. The search terms are a string exactly if they were absent
  or falsy or a string before, or the details have tags: a truthy value that is no string
  is only defaulted, not converted.
\<close>

theorem prepareItem_shape:
  assumes "prepareItem h item = Inr item'"
  shows "(\<exists>rows. oget item' ''details'' = JArr rows \<and>
           (\<forall>r\<in>set rows. is_row r \<and>
              (\<exists>k e v. (k, e) \<in> set (own_entries (js_or (oget item ''details'') (JObj []))) \<and>
                 entry_value e = Inr v \<and> getv r ''value'' = wrap v))) \<and>
         (is_string (oget item' ''searchTerms'') \<longleftrightarrow>
            \<not> truthy (oget item ''searchTerms'') \<or> is_string (oget item ''searchTerms'') \<or>
            (truthy (oget item ''details'') \<and> truthy (getv (oget item ''details'') ''tags'')))"
proof (intro conjI)
  from assms obtain st' rows where
    st': "add_tags (js_or (oget item ''searchTerms'') (JStr [])) (oget item ''details'') = Inr st'"
    and rows: "detail_rows h (oget item ''details'') (own_entries (js_or (oget item ''details'') (JObj []))) = Inr rows"
    and s: "oget item' ''searchTerms'' = st'"
    and d: "oget item' ''details'' = JArr rows"
    by (rule prepareItem_result)
  have all: "\<forall>r\<in>set rows. is_row r \<and>
              (\<exists>k e v. (k, e) \<in> set (own_entries (js_or (oget item ''details'') (JObj []))) \<and>
                 entry_value e = Inr v \<and> getv r ''value'' = wrap v)"
    by (intro ballI) (rule detail_rows_shape [OF rows])
  show "\<exists>rows. oget item' ''details'' = JArr rows \<and>
           (\<forall>r\<in>set rows. is_row r \<and>
              (\<exists>k e v. (k, e) \<in> set (own_entries (js_or (oget item ''details'') (JObj []))) \<and>
                 entry_value e = Inr v \<and> getv r ''value'' = wrap v))"
    by (rule exI [of _ rows]) (rule conjI [OF d all])
  have "is_string (js_or (oget item ''searchTerms'') (JStr [])) \<longleftrightarrow>
      \<not> truthy (oget item ''searchTerms'') \<or> is_string (oget item ''searchTerms'')"
    by (simp add: js_or_def is_string_def)
  then show "is_string (oget item' ''searchTerms'') \<longleftrightarrow>
            \<not> truthy (oget item ''searchTerms'') \<or> is_string (oget item ''searchTerms'') \<or>
            (truthy (oget item ''details'') \<and> truthy (getv (oget item ''details'') ''tags''))"
    using add_tags_string [OF st'] s by simp
qed

lemma sample_item_run: "prepareItem plain_host sample_item = Inr sample_item_prepared"
  by code_simp

text \<open>
  The sample item has a title, a version without value, tags, a flag that is \<open>false\<close> and
  a number: the rows are those of the title, the tags and the flag.
\<close>

theorem prepareItem_rows_iff_witness:
  "prepareItem plain_host sample_item = Inr sample_item_prepared \<and>
   (\<exists>rows. oget sample_item_prepared ''details'' = JArr rows \<and>
           (\<forall>k. (\<exists>r\<in>set rows. getv r ''name'' = JStr k) \<longleftrightarrow>
              (\<exists>e. (k, e) \<in> set (own_entries (js_or (oget sample_item ''details'') (JObj []))) \<and>
                 e \<noteq> JNull \<and> e \<noteq> JUndefined \<and> (\<exists>v. entry_value e = Inr v \<and> displayed v))))"
  using prepareItem_rows_iff [OF sample_item_run] sample_item_run by (intro conjI) simp_all

theorem prepareItem_shape_witness:
  "prepareItem plain_host sample_item = Inr sample_item_prepared \<and>
   (\<exists>rows. oget sample_item_prepared ''details'' = JArr rows \<and>
           (\<forall>r\<in>set rows. is_row r \<and>
              (\<exists>k e v. (k, e) \<in> set (own_entries (js_or (oget sample_item ''details'') (JObj []))) \<and>
                 entry_value e = Inr v \<and> getv r ''value'' = wrap v))) \<and>
   is_string (oget sample_item_prepared ''searchTerms'')"
proof -
  have tags: "truthy (oget sample_item ''details'') \<and> truthy (getv (oget sample_item ''details'') ''tags'')"
    by (simp add: sample_item_def oget_def)
  show ?thesis
    using prepareItem_shape [OF sample_item_run] sample_item_run tags by (intro conjI) simp_all
qed

text \<open>
  An item whose search terms are an array (as \<open>value.concat(" ")\<close> yields for a detail
  with an array value) keeps the array.
\<close>

theorem prepareItem_searchTerms_counterexample:
  "prepareItem plain_host [(''id'', JStr ''b''), (''searchTerms'', JArr [JStr ''Year'', JStr '' ''])] =
     Inr [(''id'', JStr ''b''), (''searchTerms'', JArr [JStr ''Year'', JStr '' '']),
          (''details'', JArr []), (''code'', JObj [])] \<and>
   \<not> is_string (oget [(''id'', JStr ''b''), (''searchTerms'', JArr [JStr ''Year'', JStr '' '']),
          (''details'', JArr []), (''code'', JObj [])] ''searchTerms'')"
  by code_simp

lemma mapE_Inr: "mapE f xs = Inr ys \<longleftrightarrow> list_all2 (\<lambda>x y. f x = Inr y) xs ys"
  by (induction xs arbitrary: ys) (auto simp: bindE_eq_Inr list_all2_Cons1)

lemma uniq_seen_subset: "set (uniq_seen f seen xs) \<subseteq> set xs"
  by (induction xs arbitrary: seen) auto

lemma uniq_seen_keys: "f ` set (uniq_seen f seen xs) = f ` set xs - set seen"
  by (induction xs arbitrary: seen) auto

lemma uniq_seen_distinct: "distinct (map f (uniq_seen f seen xs))"
proof (induction xs arbitrary: seen)
  case Nil
  then show ?case by simp
next
  case (Cons x xs)
  have "f x \<notin> f ` set (uniq_seen f (seen @ [f x]) xs)"
    by (simp add: uniq_seen_keys)
  with Cons show ?case by simp
qed

lemma uniq_keys: "f ` set (uniq f xs) = f ` set xs"
  by (simp add: uniq_def uniq_seen_keys)

lemma uniq_distinct: "distinct (map f (uniq f xs))"
  by (simp add: uniq_def uniq_seen_distinct)

lemma uniq_subset: "set (uniq f xs) \<subseteq> set xs"
  by (simp add: uniq_def uniq_seen_subset)

lemma oget_Cons: "oget ((k, v) # kvs) k' = (if k' = k then v else oget kvs k')"
  by (simp add: oget_def)

lemma oget_Nil: "oget [] k = JUndefined"
  by (simp add: oget_def)

lemma group_item_fields:
  "oget (group_item template single err first objects ext details) ''id'' = JStr (so_type template)"
  "oget (group_item template single err first objects ext details) ''label'' =
     JStr (if ext_name ext \<noteq> [] then ext_name ext else meta_name (so_meta template))"
  "oget (group_item template single err first objects ext details) ''count'' =
     JNum (if single then 0 else int (length objects))"
  "oget (group_item template single err first objects ext details) ''isThirdParty'' =
     JBool (meta_isThirdParty (so_meta template))"
  "oget (group_item template single err first objects ext details) ''details'' = JObj details"
  "fst ` set (group_item template single err first objects ext details) =
     {''id'', ''label'', ''icon'', ''isThirdParty'', ''isMasterObject'', ''count'', ''details'',
      ''errors'', ''searchTerms''}"
  by (simp_all add: group_item_def oget_Cons oget_Nil)

lemma multi_item_result:
  assumes "multi_item h sheetInfo app_id objects details item = Inr it"
  obtains subs st where
    "sub_items h sheetInfo app_id objects [] = Inr (subs, st)"
    "oget it ''items'' = JArr subs"
    "oget it ''details'' = JObj (filter (\<lambda>(k, v). k \<noteq> ''title'' \<and> k \<noteq> ''subtitle'') details)"
    "\<And>k. k \<noteq> ''items'' \<Longrightarrow> k \<noteq> ''searchTerms'' \<Longrightarrow> k \<noteq> ''details'' \<Longrightarrow> oget it k = oget item k"
    "fst ` set it = insert ''items'' (insert ''searchTerms'' (insert ''details'' (fst ` set item)))"
proof -
  from assms obtain subs st where
    s: "sub_items h sheetInfo app_id objects [] = Inr (subs, st)" and
    it: "it = AList.update ''items'' (JArr subs)
                (AList.update ''searchTerms'' (JStr st)
                  (AList.update ''details''
                     (JObj (filter (\<lambda>(k, v). k \<noteq> ''title'' \<and> k \<noteq> ''subtitle'') details))
                     item))"
    by (auto simp: multi_item_def bindE_eq_Inr)
  show thesis
    by (rule that [OF s]) (simp_all add: it oget_update keys_update)
qed

lemma single_item_result:
  assumes "single_item h app_id first details item = Inr it"
  obtains cs details' st where
    "so_children first = Some cs"
    "data_loop (if cs \<noteq> [] then getChildrenDataDefinition h (JArr cs)
                 else getDataDefinition h (properties_js (so_properties first))) details []
               (if cs \<noteq> [] then getChildrenDataDefinition h (JArr cs)
                 else getDataDefinition h (properties_js (so_properties first))) = Inr (details', st)"
    "oget it ''details'' = JObj details'"
    "oget it ''preview'' = JObj [(''url'', JStr (getSingleVizUrl h app_id (qId (qInfo (so_properties first))) ''nointeraction,noselections''))]"
    "\<And>k. k \<noteq> ''preview'' \<Longrightarrow> k \<noteq> ''searchTerms'' \<Longrightarrow> k \<noteq> ''details'' \<Longrightarrow> k \<noteq> ''properties''
        \<Longrightarrow> k \<noteq> ''children'' \<Longrightarrow> oget it k = oget item k"
    "fst ` set it \<subseteq> {''preview'', ''searchTerms'', ''details'', ''properties'', ''children''} \<union> fst ` set item"
proof -
  from assms obtain cs where cs: "so_children first = Some cs"
    by (auto simp: single_item_def split: option.splits)
  define data where "data = (if cs \<noteq> [] then getChildrenDataDefinition h (JArr cs)
                 else getDataDefinition h (properties_js (so_properties first)))"
  define item2 where "item2 = (if cs \<noteq> [] then AList.update ''children'' (JArr cs)
       (AList.update ''properties'' (properties_js (so_properties first)) item)
     else AList.update ''properties'' (properties_js (so_properties first)) item)"
  from assms cs obtain details' st where
    dl: "data_loop data details [] data = Inr (details', st)" and
    it: "it = AList.update ''preview''
                         (JObj [(''url'', JStr (getSingleVizUrl h app_id (qId (qInfo (so_properties first))) ''nointeraction,noselections''))])
                         (AList.update ''searchTerms'' (JStr st)
                           (AList.update ''details'' (JObj details') item2))"
    by (auto simp: single_item_def Let_def bindE_eq_Inr data_def item2_def)
  show thesis
  proof (rule that [OF cs])
    show "data_loop (if cs \<noteq> [] then getChildrenDataDefinition h (JArr cs)
                 else getDataDefinition h (properties_js (so_properties first))) details []
               (if cs \<noteq> [] then getChildrenDataDefinition h (JArr cs)
                 else getDataDefinition h (properties_js (so_properties first))) = Inr (details', st)"
      using dl by (simp only: data_def)
  qed (auto simp: it item2_def oget_update keys_update)
qed

lemma prepareItem_keeps:
  assumes "prepareItem h item = Inr item'" "k \<noteq> ''searchTerms''" "k \<noteq> ''details''" "k \<noteq> ''code''"
  shows "oget item' k = oget item k"
  using assms(1)
proof (rule prepareItem_result)
  fix st' rows
  assume "\<And>k. k \<noteq> ''searchTerms'' \<Longrightarrow> k \<noteq> ''details'' \<Longrightarrow> k \<noteq> ''code'' \<Longrightarrow> oget item' k = oget item k"
  from this [OF assms(2-4)] show ?thesis .
qed




lemma list_all2_filter:
  assumes "list_all2 R xs ys" "\<And>x y. R x y \<Longrightarrow> P x = Q y"
  shows "list_all2 R (filter P xs) (filter Q ys)"
  using assms by (induction rule: list_all2_induct) auto

lemma list_all2_concat:
  assumes "list_all2 (list_all2 R) xss yss"
  shows "list_all2 R (concat xss) (concat yss)"
  using assms by (induction rule: list_all2_induct) (auto intro: list_all2_appendI)

lemma sheet_objects_from_vis:
  "list_all2 from_vis (case visualizations sh of Some vs \<Rightarrow> vs | None \<Rightarrow> []) (sheet_objects sh)"
  by (simp add: sheet_objects_def list_all2_map2 from_vis_def list_all2_same)

lemma all_from_vis:
  "list_all2 from_vis (all_visualizations sheetInfo) (concat (map sheet_objects sheetInfo))"
  unfolding all_visualizations_def
  by (rule list_all2_concat) (simp add: list_all2_map1 list_all2_map2 list_all2_same sheet_objects_from_vis)

lemma from_vis_type: "from_vis v a \<Longrightarrow> so_type a = vis_type v"
  by (simp add: from_vis_def so_type_def vis_type_def)

lemma objects_of_type:
  "list_all2 from_vis (filter (\<lambda>v. vis_type v = t) (all_visualizations sheetInfo))
     (filter (\<lambda>a. t = so_type a) (concat (map sheet_objects sheetInfo)))"
  by (rule list_all2_filter [OF all_from_vis]) (auto dest: from_vis_type)

lemma types_of_objects:
  "so_type ` set (concat (map sheet_objects sheetInfo)) = vis_type ` set (all_visualizations sheetInfo)"
proof -
  have "map so_type (concat (map sheet_objects sheetInfo)) = map vis_type (all_visualizations sheetInfo)"
    using all_from_vis [of sheetInfo]
    by (induction rule: list_all2_induct) (auto dest: from_vis_type)
  then have "set (map so_type (concat (map sheet_objects sheetInfo))) =
             set (map vis_type (all_visualizations sheetInfo))"
    by simp
  then show ?thesis by simp
qed

lemma unique_item_cases:
  assumes "unique_item h sheetInfo extensionList app_id sos template = Inr it"
  obtains first rest ext sv err where
    "filter (\<lambda>a. so_type template = so_type a) sos = first # rest"
    "rest \<noteq> [] \<Longrightarrow>
       multi_item h sheetInfo app_id (first # rest) (group_details h False first ext sv)
         (group_item template False err first (first # rest) ext (group_details h False first ext sv)) = Inr it"
    "rest = [] \<Longrightarrow>
       single_item h app_id first (group_details h True first ext sv)
         (group_item template True err first (first # rest) ext (group_details h True first ext sv)) = Inr it"
proof -
  from assms obtain first rest where
    objs: "filter (\<lambda>a. so_type template = so_type a) sos = first # rest"
    by (cases "filter (\<lambda>a. so_type template = so_type a) sos") (auto simp: unique_item_def Let_def)
  define ext where "ext = (case extensionList (meta_template (so_meta template)) of
                                        Some e \<Rightarrow> e | None \<Rightarrow> no_extension)"
  from assms objs obtain sv where
    sv: "sheets_value (map (\<lambda>a. find (\<lambda>b. sheet_id b = so_sheet a) sheetInfo) (first # rest)) = Inr sv"
    by (auto simp: unique_item_def Let_def bindE_eq_Inr)
  show thesis
  proof (cases "rest = []")
    case True
    show ?thesis
      by (rule that [OF objs, of ext sv]) (use assms objs sv True in \<open>auto simp: unique_item_def Let_def ext_def\<close>)
  next
    case False
    show ?thesis
      by (rule that [OF objs, of ext sv]) (use assms objs sv False in \<open>auto simp: unique_item_def Let_def ext_def\<close>)
  qed
qed

lemma unique_item_id_count:
  assumes "unique_item h sheetInfo extensionList app_id sos template = Inr it"
  shows "oget it ''id'' = JStr (so_type template) \<and>
         oget it ''count'' = JNum (let n = length (filter (\<lambda>a. so_type template = so_type a) sos)
                                  in if n > 1 then int n else 0) \<and>
         (\<exists>l. oget it ''label'' = JStr l)"
  using assms
proof (rule unique_item_cases)
  fix first rest ext sv err
  assume objs: "filter (\<lambda>a. so_type template = so_type a) sos = first # rest"
    and multi: "rest \<noteq> [] \<Longrightarrow>
       multi_item h sheetInfo app_id (first # rest) (group_details h False first ext sv)
         (group_item template False err first (first # rest) ext (group_details h False first ext sv)) = Inr it"
    and single: "rest = [] \<Longrightarrow>
       single_item h app_id first (group_details h True first ext sv)
         (group_item template True err first (first # rest) ext (group_details h True first ext sv)) = Inr it"
  show ?thesis
  proof (cases "rest = []")
    case True
    from single [OF True] show ?thesis
    proof (rule single_item_result)
      fix cs details' st
      assume keep: "\<And>k. k \<noteq> ''preview'' \<Longrightarrow> k \<noteq> ''searchTerms'' \<Longrightarrow> k \<noteq> ''details'' \<Longrightarrow> k \<noteq> ''properties''
        \<Longrightarrow> k \<noteq> ''children'' \<Longrightarrow> oget it k =
          oget (group_item template True err first (first # rest) ext (group_details h True first ext sv)) k"
      show ?thesis
        using keep [of "''id''"] keep [of "''count''"] keep [of "''label''"] True
        by (simp add: group_item_fields objs)
    qed
  next
    case False
    from multi [OF False] show ?thesis
    proof (rule multi_item_result)
      fix subs st
      assume keep: "\<And>k. k \<noteq> ''items'' \<Longrightarrow> k \<noteq> ''searchTerms'' \<Longrightarrow> k \<noteq> ''details'' \<Longrightarrow> oget it k =
          oget (group_item template False err first (first # rest) ext (group_details h False first ext sv)) k"
      show ?thesis
        using keep [of "''id''"] keep [of "''count''"] keep [of "''label''"] False
        by (simp add: group_item_fields objs)
    qed
  qed
qed

lemma getUnique_stages:
  assumes "getUniqueAppObjectsFromSheets h collate sheetInfo extensionList app_id = Inr items"
  obtains built where
    "list_all2 (\<lambda>template it. unique_item h sheetInfo extensionList app_id
        (concat (map sheet_objects sheetInfo)) template = Inr it)
       (uniq so_type (concat (map sheet_objects sheetInfo))) built"
    "list_all2 (\<lambda>raw it. prepareItem h raw = Inr it) (sort_key (label_key h collate) built) items"
proof -
  from assms obtain built sorted where
    b: "mapE (unique_item h sheetInfo extensionList app_id (concat (map sheet_objects sheetInfo)))
          (uniq so_type (concat (map sheet_objects sheetInfo))) = Inr built" and
    s: "sort_by_label h collate built = Inr sorted" and
    p: "mapE (prepareItem h) sorted = Inr items"
    by (auto simp: getUniqueAppObjectsFromSheets_def Let_def bindE_eq_Inr)
  from s have "sorted = sort_key (label_key h collate) built"
    by (auto simp: sort_by_label_def split: if_splits)
  with b p show thesis
    by (intro that) (simp_all add: mapE_Inr)
qed

lemma list_all2_map_eq:
  assumes "list_all2 R xs ys" "\<And>x y. R x y \<Longrightarrow> f x = g y"
  shows "map f xs = map g ys"
  using assms by (induction rule: list_all2_induct) auto

lemma list_all2_in_right:
  assumes "list_all2 R xs ys" "y \<in> set ys"
  obtains x where "x \<in> set xs" "R x y"
  using assms by (induction rule: list_all2_induct) auto

lemma count_of_type:
  "length (filter (\<lambda>a. t = so_type a) (concat (map sheet_objects sheetInfo))) = type_count sheetInfo t"
  using objects_of_type [of t sheetInfo]
  by (simp add: type_count_def list_all2_lengthD)

text \<open>
  Claim C1. When \<open>getUniqueAppObjectsFromSheets\<close> returns, its items have pairwise
  different ids, the ids are exactly the visualization types (\<open>properties.qInfo.qType\<close>)
  that occur on the sheets, and the \<open>count\<close> of the item of a type is the number of the
  objects of that type when there are several, and 0 when there is one.
\<close>

theorem unique_objects_one_per_type:
  assumes "getUniqueAppObjectsFromSheets h collate sheetInfo extensionList app_id = Inr items"
  shows "distinct (map item_id items) \<and>
         item_id ` set items = (\<lambda>v. JStr (vis_type v)) ` set (all_visualizations sheetInfo) \<and>
         (\<forall>item \<in> set items. \<forall>t. item_id item = JStr t \<longrightarrow>
            oget item ''count'' =
              JNum (if type_count sheetInfo t > 1 then int (type_count sheetInfo t) else 0))"
  using assms
proof (rule getUnique_stages)
  fix built
  let ?sos = "concat (map sheet_objects sheetInfo)"
  let ?k = "label_key h collate"
  assume b: "list_all2 (\<lambda>template it. unique_item h sheetInfo extensionList app_id ?sos template = Inr it)
       (uniq so_type ?sos) built"
    and p: "list_all2 (\<lambda>raw it. prepareItem h raw = Inr it) (sort_key ?k built) items"
  have ids_b: "map item_id built = map (\<lambda>a. JStr (so_type a)) (uniq so_type ?sos)"
    by (rule list_all2_map_eq [OF b, symmetric]) (simp add: item_id_def unique_item_id_count)
  have ids_p: "map item_id items = map item_id (sort_key ?k built)"
    by (rule list_all2_map_eq [OF p, symmetric]) (simp add: item_id_def prepareItem_keeps)
  have "distinct (map (\<lambda>a. JStr (so_type a)) (uniq so_type ?sos))"
    using uniq_distinct [of so_type ?sos] by (simp add: distinct_map inj_on_def)
  then have "distinct (map item_id built)"
    by (simp add: ids_b)
  then have "distinct (map item_id (sort_key ?k built))"
    by (simp add: distinct_map)
  then have d: "distinct (map item_id items)"
    by (simp add: ids_p)
  have "set (map item_id items) = set (map item_id built)"
    by (simp add: ids_p)
  also have "\<dots> = (\<lambda>a. JStr (so_type a)) ` set (uniq so_type ?sos)"
    by (simp add: ids_b)
  also have "\<dots> = JStr ` (so_type ` set (uniq so_type ?sos))"
    by (simp add: image_image)
  also have "\<dots> = JStr ` (vis_type ` set (all_visualizations sheetInfo))"
    by (simp only: uniq_keys types_of_objects)
  finally have s: "item_id ` set items = (\<lambda>v. JStr (vis_type v)) ` set (all_visualizations sheetInfo)"
    by (simp add: image_image)
  have c: "oget item ''count'' =
              JNum (if type_count sheetInfo t > 1 then int (type_count sheetInfo t) else 0)"
    if "item \<in> set items" "item_id item = JStr t" for item t
  proof -
    from p that(1) obtain raw where raw: "raw \<in> set (sort_key ?k built)" "prepareItem h raw = Inr item"
      by (rule list_all2_in_right)
    from raw(1) have "raw \<in> set built" by simp
    with b obtain template where
      u: "unique_item h sheetInfo extensionList app_id ?sos template = Inr raw"
      by (rule list_all2_in_right)
    from unique_item_id_count [OF u] have
      rid: "oget raw ''id'' = JStr (so_type template)" and
      rc: "oget raw ''count'' = JNum (let n = length (filter (\<lambda>a. so_type template = so_type a) ?sos)
                                  in if n > 1 then int n else 0)"
      by simp_all
    from prepareItem_keeps [OF raw(2), of "''id''"] rid that(2) have t: "so_type template = t"
      by (simp add: item_id_def)
    from prepareItem_keeps [OF raw(2), of "''count''"] rc show ?thesis
      by (simp add: t count_of_type Let_def)
  qed
  from d s c show ?thesis by blast
qed

text \<open>
  Claim C5. The items that \<open>getUniqueAppObjectsFromSheets\<close> returns all have a string as
  label, and they are in ascending order of the lower-cased label under the comparison
  of the locale.
\<close>

theorem unique_objects_sorted:
  assumes "getUniqueAppObjectsFromSheets h collate sheetInfo extensionList app_id = Inr items"
  shows "(\<forall>item \<in> set items. is_string (oget item ''label'')) \<and>
         sorted (map (\<lambda>item. collate (toLowerCase h (string_of (oget item ''label'')))) items)"
  using assms
proof (rule getUnique_stages)
  fix built
  let ?sos = "concat (map sheet_objects sheetInfo)"
  let ?k = "label_key h collate"
  assume b: "list_all2 (\<lambda>template it. unique_item h sheetInfo extensionList app_id ?sos template = Inr it)
       (uniq so_type ?sos) built"
    and p: "list_all2 (\<lambda>raw it. prepareItem h raw = Inr it) (sort_key ?k built) items"
  have strings: "is_string (oget item ''label'')" if "item \<in> set items" for item
  proof -
    from p that obtain raw where raw: "raw \<in> set (sort_key ?k built)" "prepareItem h raw = Inr item"
      by (rule list_all2_in_right)
    from raw(1) have "raw \<in> set built" by simp
    with b obtain template where
      "unique_item h sheetInfo extensionList app_id ?sos template = Inr raw"
      by (rule list_all2_in_right)
    from unique_item_id_count [OF this] obtain l where "oget raw ''label'' = JStr l"
      by blast
    with prepareItem_keeps [OF raw(2), of "''label''"] show ?thesis
      by (simp add: is_string_def)
  qed
  have "map ?k items = map ?k (sort_key ?k built)"
    by (rule list_all2_map_eq [OF p, symmetric]) (simp add: label_key_def prepareItem_keeps)
  then have "sorted (map ?k items)"
    by (simp add: sorted_sort_key)
  then have "sorted (map (\<lambda>item. collate (toLowerCase h (string_of (oget item ''label'')))) items)"
    by (simp add: label_key_def [abs_def])
  with strings show ?thesis by blast
qed








lemma map_enumerate_Suc:
  assumes "\<And>i. P (Suc i)"
  shows "map (\<lambda>(index, a). if P index then f a else a) (enumerate (Suc n) xs) = map f xs"
  by (induction xs arbitrary: n) (simp_all add: assms)

text \<open>
  Claim C10. \<open>getSheetInfo\<close> returns the first element of the sheet list, the summary, as
  it is, and every other element with its preview set to the single-sheet URL made of the
  base URI, the encoded app id, the sheet's id and the options
  \<open>nointeraction,noselections\<close>.
\<close>

theorem getSheetInfo_preview:
  "getSheetInfo h app_id info =
     (case info of
        [] \<Rightarrow> []
      | summary # sheets \<Rightarrow>
          summary #
          map (\<lambda>a. a\<lparr>preview := JObj [(''url'', JStr (baseURI h @ ''single/?appid='' @
                         encodeURIComponent h app_id @ ''&sheet='' @ sheet_id a @
                         ''&opt=nointeraction,noselections''))]\<rparr>) sheets)"
proof (cases info)
  case Nil
  then show ?thesis by (simp add: getSheetInfo_def)
next
  case (Cons summary sheets)
  have "getSheetInfo h app_id (summary # sheets) =
      summary # map (\<lambda>a. a\<lparr>preview := JObj [(''url'', JStr (getSingleSheetUrl h app_id (sheet_id a)
                                                    ''nointeraction,noselections''))]\<rparr>) sheets"
    unfolding getSheetInfo_def
    using map_enumerate_Suc [of "\<lambda>index. index \<noteq> 0" _ 0 sheets] by simp
  with Cons show ?thesis
    by (simp add: getSingleSheetUrl_def)
qed

lemma index_from_sublist: "index_from i s q \<noteq> - 1 \<longleftrightarrow> sublist q s"
proof (induction s arbitrary: i)
  case Nil
  then show ?case by simp
next
  case (Cons c s)
  show ?case
  proof (cases "prefix q (c # s)")
    case True
    then show ?thesis by (simp add: sublist_Cons_right)
  next
    case False
    then show ?thesis using Cons.IH [of "Suc i"] by (simp add: sublist_Cons_right)
  qed
qed

lemma matchSearchQuery_contains: "matchSearchQuery h query v = contains_ci h query v"
  using index_from_sublist [of 0 "toLowerCase h (js_string v)" "toLowerCase h query"]
  by (auto simp: matchSearchQuery_def contains_ci_def indexOf_def)

lemma query_filter_matches: "query_filter h query = query_matches h query"
  by (rule ext) (simp add: query_filter_def query_matches_def matchSearchQuery_contains)

lemma map_of_foldl_update:
  "map_of (foldl (\<lambda>f i. AList.update i (g i) f) f0 ks) i =
     (if i \<in> set ks then Some (g i) else map_of f0 i)"
  by (induction ks arbitrary: f0) (simp_all add: update_conv')

lemma keys_foldl_update:
  "fst ` set (foldl (\<lambda>f i. AList.update i (g i) f) f0 ks) = fst ` set f0 \<union> set ks"
  by (induction ks arbitrary: f0) (auto simp: keys_update)

lemma contains_ci_string:
  assumes "lowering h" "query \<noteq> []"
  shows "contains_ci h query (JStr s) \<longleftrightarrow> sublist (toLowerCase h query) (toLowerCase h s)"
proof (cases "s = []")
  case True
  from assms have "toLowerCase h [] = []" "toLowerCase h query \<noteq> []"
    by (simp_all add: lowering_def)
  with True show ?thesis by (simp add: contains_ci_def)
next
  case False
  then show ?thesis by (simp add: contains_ci_def)
qed

text \<open>
  Claim C2. After the watcher of the search query has run, the filtered list of every
  category holds exactly the items of that category that match, in their order: the
  query is empty, or it occurs, case ignored, in the text of the id, of the label or of
  the search terms (\<open>contains_ci\<close>; a missing or empty field never matches). The list
  shown is the filtered list of the active asset, and no list gains an item. For a
  string field and a non-empty query, matching is just the occurrence of the lower-cased
  query in the lower-cased string, given that lower-casing keeps the empty string apart
  (\<open>lowering\<close>).
\<close>

theorem search_filters_every_category:
  "(\<forall>i \<in> fst ` set (allItems sc).
      map_of (filteredItems (search_watch h query sc)) i =
        Some (filter (query_matches h query) (items_of (allItems sc) i)) \<and>
      set (items_of (filteredItems (search_watch h query sc)) i) \<subseteq> set (items_of (allItems sc) i)) \<and>
   (activeAsset sc \<in> fst ` set (allItems sc) \<longrightarrow>
      selected (search_watch h query sc) =
        filter (query_matches h query) (items_of (allItems sc) (activeAsset sc))) \<and>
   (lowering h \<and> query \<noteq> [] \<longrightarrow>
      (\<forall>s. contains_ci h query (JStr s) \<longleftrightarrow> sublist (toLowerCase h query) (toLowerCase h s)))"
proof (intro conjI ballI impI)
  let ?f = "foldl (\<lambda>f i. AList.update i (filter (query_filter h query) (items_of (allItems sc) i)) f)
                       (filteredItems sc) (map fst (allItems sc))"
  have f: "filteredItems (search_watch h query sc) = ?f"
    by (simp add: search_watch_def Let_def)
  have m: "map_of ?f i = Some (filter (query_matches h query) (items_of (allItems sc) i))"
    if "i \<in> fst ` set (allItems sc)" for i
    using that by (simp add: map_of_foldl_update query_filter_matches)
  show "map_of (filteredItems (search_watch h query sc)) i =
        Some (filter (query_matches h query) (items_of (allItems sc) i))"
    if "i \<in> fst ` set (allItems sc)" for i
    using m [OF that] by (simp only: f)
  show "set (items_of (filteredItems (search_watch h query sc)) i) \<subseteq> set (items_of (allItems sc) i)"
    if "i \<in> fst ` set (allItems sc)" for i
    using m [OF that] by (simp add: f items_of_def [of ?f])
  show "selected (search_watch h query sc) =
        filter (query_matches h query) (items_of (allItems sc) (activeAsset sc))"
    if "activeAsset sc \<in> fst ` set (allItems sc)"
  proof -
    have "activeAsset sc \<in> fst ` set ?f"
      using that by (simp add: keys_foldl_update)
    then show ?thesis
      using m [OF that] by (simp add: search_watch_def Let_def items_of_def [of ?f])
  qed
  show "\<forall>s. contains_ci h query (JStr s) \<longleftrightarrow> sublist (toLowerCase h query) (toLowerCase h s)"
    if "lowering h \<and> query \<noteq> []"
    using that contains_ci_string by blast
qed

lemma openApp_result:
  assumes "openApp cur arg s = (r, s')"
  shows "(\<forall>a p. apps s a = Some p \<longrightarrow> apps s' a = Some p) \<and>
         (cache_ok s \<longrightarrow> cache_ok s') \<and>
         (\<forall>a. arg = AppId a \<and> a \<noteq> [] \<longrightarrow> (\<exists>p. r = Some p \<and> apps s' a = Some p))"
proof (cases arg)
  case NoApp
  with assms show ?thesis
    by (auto simp: openApp_def new_promise_def cache_ok_def)
next
  case (AppObject a)
  with assms show ?thesis
    by (auto simp: openApp_def new_promise_def cache_ok_def)
next
  case (AppId a)
  show ?thesis
  proof (cases "a = []")
    case True
    with assms AppId show ?thesis
      by (auto simp: openApp_def new_promise_def cache_ok_def)
  next
    case False
    define s1 where "s1 = (if apps s cur = None
                      then (let (p, t) = new_promise s in t\<lparr>apps := (apps t)(cur \<mapsto> p)\<rparr>)
                      else s)"
    define s2 where "s2 = (if apps s1 a = None
                      then (let (p, t) = new_promise (s1\<lparr>opened := opened s1 @ [a]\<rparr>)
                            in t\<lparr>apps := (apps t)(a \<mapsto> p)\<rparr>)
                      else s1)"
    have "openApp cur (AppId a) s = (apps s2 a, s2)"
      unfolding openApp_def s2_def s1_def using False by (simp add: Let_def)
    have e: "openApp cur (AppId a) s = (apps s2 a, s2)"
      by fact
    from assms have "openApp cur (AppId a) s = (r, s')"
      unfolding AppId .
    from this [symmetric] e have "(r, s') = (apps s2 a, s2)"
      by (rule trans)
    then have r: "r = apps s2 a" and s': "s' = s2"
      by blast+
    have m1: "apps s b = Some p \<Longrightarrow> apps s1 b = Some p" for b p
      by (auto simp: s1_def new_promise_def)
    have m2: "apps s1 b = Some p \<Longrightarrow> apps s2 b = Some p" for b p
      by (auto simp: s2_def new_promise_def)
    have o1: "opened s1 = opened s"
      by (simp add: s1_def new_promise_def)
    have c1: "cache_ok s \<Longrightarrow> cache_ok s1"
    proof -
      assume ok: "cache_ok s"
      have "apps s1 b \<noteq> None" if "b \<in> set (opened s)" for b
      proof -
        from ok that obtain p where "apps s b = Some p"
          by (auto simp: cache_ok_def)
        from m1 [OF this] show ?thesis by simp
      qed
      with ok show ?thesis
        by (simp add: cache_ok_def o1)
    qed
    have c2: "cache_ok s1 \<Longrightarrow> cache_ok s2"
    proof (cases "apps s1 a = None")
      case True
      assume ok: "cache_ok s1"
      with True have "a \<notin> set (opened s1)"
        by (auto simp: cache_ok_def)
      with ok True show ?thesis
        by (auto simp: cache_ok_def s2_def new_promise_def)
    next
      case False
      assume "cache_ok s1"
      with False show ?thesis by (auto simp: s2_def)
    qed
    have "apps s2 a \<noteq> None"
      by (simp add: s2_def new_promise_def)
    then obtain p where "apps s2 a = Some p"
      by (cases "apps s2 a") simp_all
    then have res: "\<forall>b. arg = AppId b \<and> b \<noteq> [] \<longrightarrow> (\<exists>p. r = Some p \<and> apps s' b = Some p)"
      using r s' AppId by simp
    have keep: "\<forall>b p. apps s b = Some p \<longrightarrow> apps s' b = Some p"
      using m1 m2 s' by blast
    have "cache_ok s \<longrightarrow> cache_ok s'"
      using c1 c2 s' by blast
    with keep res show ?thesis
      by (intro conjI)
  qed
qed

lemma open_all_result:
  assumes "open_all cur args s = (ps, s')" "cache_ok s"
  shows "cache_ok s' \<and> (\<forall>a p. apps s a = Some p \<longrightarrow> apps s' a = Some p) \<and> length ps = length args \<and>
         (\<forall>i a. i < length args \<and> args ! i = AppId a \<and> a \<noteq> [] \<longrightarrow>
            (\<exists>p. ps ! i = Some p \<and> apps s' a = Some p))"
  using assms
proof (induction args arbitrary: s ps s')
  case Nil
  then show ?case by simp
next
  case (Cons arg args)
  obtain r s1 where first: "openApp cur arg s = (r, s1)"
    by (cases "openApp cur arg s")
  obtain rs s2 where rest: "open_all cur args s1 = (rs, s2)"
    by (cases "open_all cur args s1")
  from Cons.prems(1) first rest have ps: "ps = r # rs" and s': "s' = s2"
    by simp_all
  note f = openApp_result [OF first]
  note f1 = f [THEN conjunct1, rule_format]
  note f2 = f [THEN conjunct2, THEN conjunct1]
  note f3 = f [THEN conjunct2, THEN conjunct2, rule_format]
  from f2 Cons.prems(2) have ok1: "cache_ok s1" by simp
  note ih = Cons.IH [OF rest ok1]
  note i1 = ih [THEN conjunct1]
  note i2 = ih [THEN conjunct2, THEN conjunct1, rule_format]
  note i3 = ih [THEN conjunct2, THEN conjunct2, THEN conjunct1]
  note i4 = ih [THEN conjunct2, THEN conjunct2, THEN conjunct2, rule_format]
  have keep: "apps s a = Some p \<longrightarrow> apps s2 a = Some p" for a p
    using f1 [of a p] i2 [of a p] by simp
  have at: "i < length (arg # args) \<and> (arg # args) ! i = AppId a \<and> a \<noteq> [] \<longrightarrow>
            (\<exists>p. ps ! i = Some p \<and> apps s2 a = Some p)" for i a
  proof (cases i)
    case 0
    show ?thesis
    proof
      assume h: "i < length (arg # args) \<and> (arg # args) ! i = AppId a \<and> a \<noteq> []"
      with 0 have "arg = AppId a \<and> a \<noteq> []" by simp
      from f3 [OF this] obtain p where r: "r = Some p" and p: "apps s1 a = Some p"
        by (elim exE conjE)
      from i2 [OF p] have "apps s2 a = Some p" .
      with r 0 show "\<exists>p. ps ! i = Some p \<and> apps s2 a = Some p"
        by (simp add: ps)
    qed
  next
    case (Suc j)
    show ?thesis
    proof
      assume h: "i < length (arg # args) \<and> (arg # args) ! i = AppId a \<and> a \<noteq> []"
      with Suc have "j < length args \<and> args ! j = AppId a \<and> a \<noteq> []" by simp
      from i4 [OF this] Suc show "\<exists>p. ps ! i = Some p \<and> apps s2 a = Some p"
        by (simp add: ps)
    qed
  qed
  have len: "length ps = length (arg # args)"
    by (simp add: ps i3)
  from i1 keep at len show ?case
    unfolding s' by (intro conjI allI)
qed

text \<open>
  Claim C4. In any series of calls of \<open>openApp\<close> in one session, with identifiers that
  are keys of a dictionary, \<open>qlik.openApp\<close> is called at most once for an identifier, and
  two calls with the same (non-empty) identifier return the same promise.
\<close>

theorem openApp_cached:
  assumes "open_all currApp_id args new_session = (ps, s)"
    and "list_all dictionary_key (currApp_id # identifiers args)"
  shows "distinct (opened s) \<and>
         (\<forall>i j a. i < length args \<and> j < length args \<and> args ! i = AppId a \<and> args ! j = AppId a \<and> a \<noteq> []
            \<longrightarrow> (\<exists>p. ps ! i = Some p \<and> ps ! j = Some p))"
proof -
  have "cache_ok new_session"
    by (simp add: cache_ok_def new_session_def)
  note r = open_all_result [OF assms(1) this]
  from r have d: "distinct (opened s)"
    by (simp add: cache_ok_def)
  note at = r [THEN conjunct2, THEN conjunct2, THEN conjunct2, rule_format]
  have "i < length args \<and> j < length args \<and> args ! i = AppId a \<and> args ! j = AppId a \<and> a \<noteq> [] \<longrightarrow>
        (\<exists>p. ps ! i = Some p \<and> ps ! j = Some p)" for i j a
  proof
    assume h: "i < length args \<and> j < length args \<and> args ! i = AppId a \<and> args ! j = AppId a \<and> a \<noteq> []"
    then have hi: "i < length args \<and> args ! i = AppId a \<and> a \<noteq> []"
      and hj: "j < length args \<and> args ! j = AppId a \<and> a \<noteq> []"
      by simp_all
    from at [OF hi] obtain p where p: "ps ! i = Some p" "apps s a = Some p"
      by (elim exE conjE)
    from at [OF hj] obtain q where q: "ps ! j = Some q" "apps s a = Some q"
      by (elim exE conjE)
    from p q show "\<exists>p. ps ! i = Some p \<and> ps ! j = Some p"
      by simp
  qed
  with d show ?thesis by (intro conjI allI)
qed










lemma sample_objects_run:
  "getUniqueAppObjectsFromSheets plain_host codes sample_sheets Map.empty ''app1'' = Inr sample_objects"
  by code_simp

lemma sample_objects_ids:
  "map item_id sample_objects = [JStr ''Barchart'', JStr ''table''] \<and>
   map (\<lambda>item. oget item ''count'') sample_objects = [JNum 2, JNum 0]"
  by code_simp

lemma sample_objects_members:
  "sample_objects ! 0 \<in> set sample_objects \<and> item_id (sample_objects ! 0) = JStr ''Barchart'' \<and>
   type_count sample_sheets ''Barchart'' = 2 \<and>
   filter (\<lambda>v. vis_type v = ''Barchart'') (all_visualizations sample_sheets) =
     [chart ''b1'' ''Barchart'' ''Revenue'', chart ''b2'' ''Barchart'' []] \<and>
   sample_objects ! 1 \<in> set sample_objects \<and> item_id (sample_objects ! 1) = JStr ''table'' \<and>
   type_count sample_sheets ''table'' = 1"
  by code_simp

theorem unique_objects_one_per_type_witness:
  "getUniqueAppObjectsFromSheets plain_host codes sample_sheets Map.empty ''app1'' = Inr sample_objects \<and>
   map item_id sample_objects = [JStr ''Barchart'', JStr ''table''] \<and>
   map (\<lambda>item. oget item ''count'') sample_objects = [JNum 2, JNum 0] \<and>
   distinct (map item_id sample_objects) \<and>
   item_id ` set sample_objects = (\<lambda>v. JStr (vis_type v)) ` set (all_visualizations sample_sheets) \<and>
   type_count sample_sheets ''Barchart'' = 2 \<and>
   oget (sample_objects ! 0) ''count'' = JNum (int (type_count sample_sheets ''Barchart'')) \<and>
   type_count sample_sheets ''table'' = 1 \<and>
   oget (sample_objects ! 1) ''count'' = JNum 0"
proof -
  note t = unique_objects_one_per_type [OF sample_objects_run]
  note m = sample_objects_members
  from m have m0: "sample_objects ! 0 \<in> set sample_objects"
    and i0: "item_id (sample_objects ! 0) = JStr ''Barchart''"
    and n0: "type_count sample_sheets ''Barchart'' = 2"
    and m1: "sample_objects ! 1 \<in> set sample_objects"
    and i1: "item_id (sample_objects ! 1) = JStr ''table''"
    and n1: "type_count sample_sheets ''table'' = 1"
    by simp_all
  note count = t [THEN conjunct2, THEN conjunct2, rule_format]
  from count [OF m0 i0] n0
  have c0: "oget (sample_objects ! 0) ''count'' = JNum (int (type_count sample_sheets ''Barchart''))"
    by simp
  from count [OF m1 i1] n1 have c1: "oget (sample_objects ! 1) ''count'' = JNum 0"
    by simp
  from t have d: "distinct (map item_id sample_objects)"
    by (rule conjunct1)
  from t have i: "item_id ` set sample_objects =
      (\<lambda>v. JStr (vis_type v)) ` set (all_visualizations sample_sheets)"
    by (rule conjunct2 [THEN conjunct1])
  from sample_objects_run sample_objects_ids d i n0 c0 n1 c1 show ?thesis
    by (intro conjI) simp_all
qed

theorem unique_objects_sorted_witness:
  "getUniqueAppObjectsFromSheets plain_host codes sample_sheets Map.empty ''app1'' = Inr sample_objects \<and>
   map (\<lambda>item. oget item ''label'') sample_objects = [JStr ''Barchart'', JStr ''table''] \<and>
   list_all (\<lambda>item. is_string (oget item ''label'')) sample_objects \<and>
   sorted (map (\<lambda>item. codes (toLowerCase plain_host (string_of (oget item ''label'')))) sample_objects)"
proof -
  note t = unique_objects_sorted [OF sample_objects_run]
  have l: "map (\<lambda>item. oget item ''label'') sample_objects = [JStr ''Barchart'', JStr ''table'']"
    by code_simp
  from t [THEN conjunct1] have s: "list_all (\<lambda>item. is_string (oget item ''label'')) sample_objects"
    by (simp only: list_all_iff)
  from t have o: "sorted (map (\<lambda>item. codes (toLowerCase plain_host (string_of (oget item ''label'')))) sample_objects)"
    by (rule conjunct2)
  from sample_objects_run l s o show ?thesis
    by (intro conjI)
qed




lemma plain_host_lowering: "lowering plain_host"
  by (simp add: lowering_def plain_host_def)

lemma sample_scope_search:
  "activeAsset sample_scope \<in> fst ` set (allItems sample_scope) \<and>
   selected (search_watch plain_host ''BAR'' sample_scope) = [bar_item] \<and>
   items_of (allItems sample_scope) (activeAsset sample_scope) = [bar_item, table_item]"
  by code_simp

theorem search_filters_every_category_witness:
  "activeAsset sample_scope \<in> fst ` set (allItems sample_scope) \<and> lowering plain_host \<and>
   selected (search_watch plain_host ''BAR'' sample_scope) = [bar_item] \<and>
   filter (query_matches plain_host ''BAR'') [bar_item, table_item] = [bar_item] \<and>
   (contains_ci plain_host ''BAR'' (JStr ''Bar chart'') \<longleftrightarrow>
      sublist (toLowerCase plain_host ''BAR'') (toLowerCase plain_host ''Bar chart''))"
proof -
  note t = search_filters_every_category [of sample_scope plain_host "''BAR''"]
  note s = sample_scope_search
  from t s have "selected (search_watch plain_host ''BAR'' sample_scope) =
      filter (query_matches plain_host ''BAR'') (items_of (allItems sample_scope) (activeAsset sample_scope))"
    by blast
  with s have f: "filter (query_matches plain_host ''BAR'') [bar_item, table_item] = [bar_item]"
    by metis
  from t plain_host_lowering have
    "contains_ci plain_host ''BAR'' (JStr ''Bar chart'') \<longleftrightarrow>
      sublist (toLowerCase plain_host ''BAR'') (toLowerCase plain_host ''Bar chart'')"
    by simp
  with s f plain_host_lowering show ?thesis by (intro conjI) simp_all
qed

lemma sample_calls_run:
  "fst (open_all ''app1'' sample_calls new_session) = [Some 0, Some 1, Some 0, Some 2, Some 1] \<and>
   opened (snd (open_all ''app1'' sample_calls new_session)) = [''app2'']"
  by code_simp

theorem openApp_cached_witness:
  "list_all dictionary_key (''app1'' # identifiers sample_calls) \<and>
   fst (open_all ''app1'' sample_calls new_session) = [Some 0, Some 1, Some 0, Some 2, Some 1] \<and>
   opened (snd (open_all ''app1'' sample_calls new_session)) = [''app2''] \<and>
   distinct (opened (snd (open_all ''app1'' sample_calls new_session))) \<and>
   (\<exists>p. fst (open_all ''app1'' sample_calls new_session) ! 1 = Some p \<and>
        fst (open_all ''app1'' sample_calls new_session) ! 4 = Some p)"
proof -
  have run: "open_all ''app1'' sample_calls new_session =
      (fst (open_all ''app1'' sample_calls new_session), snd (open_all ''app1'' sample_calls new_session))"
    by simp
  have keys: "list_all dictionary_key (''app1'' # identifiers sample_calls)"
    by (simp add: dictionary_key_def identifiers_def sample_calls_def)
  note t = openApp_cached [OF run keys]
  have h: "(1::nat) < length sample_calls \<and> (4::nat) < length sample_calls \<and>
      sample_calls ! 1 = AppId ''app2'' \<and> sample_calls ! 4 = AppId ''app2'' \<and> ''app2'' \<noteq> []"
    by (simp add: sample_calls_def)
  from t have "distinct (opened (snd (open_all ''app1'' sample_calls new_session)))"
    by (rule conjunct1)
  moreover from t [THEN conjunct2, rule_format, OF h]
  have "\<exists>p. fst (open_all ''app1'' sample_calls new_session) ! 1 = Some p \<and>
        fst (open_all ''app1'' sample_calls new_session) ! 4 = Some p" .
  ultimately show ?thesis using keys sample_calls_run by (intro conjI) simp_all
qed



section \<open>Loading the inspector: proofs\<close>

lemma q_all_Inr:
  assumes "q_all outcome names = Inr args"
  shows "map fst args = names" and "\<And>n a. (n, a) \<in> set args \<Longrightarrow> outcome n = Inr a"
proof -
  from assms have l: "list_all2 (\<lambda>n p. bindE (outcome n) (\<lambda>v. Inr (n, v)) = Inr p) names args"
    by (simp add: q_all_def mapE_Inr)
  then have l': "list_all2 (\<lambda>n p. fst p = n \<and> outcome n = Inr (snd p)) names args"
    by (rule list_all2_mono) (auto simp: bindE_eq_Inr)
  have "map (\<lambda>n. n) names = map fst args"
    by (rule list_all2_map_eq [OF l']) simp
  then show "map fst args = names"
    by simp
  fix n a assume "(n, a) \<in> set args"
  with l' obtain m where "fst (n, a) = m \<and> outcome m = Inr (snd (n, a))"
    by (rule list_all2_in_right)
  then show "outcome n = Inr a" by simp
qed

lemma prepare_all_None:
  assumes "prepare_all h args acc = (acc', None)" "distinct (map fst args)"
  shows "(\<forall>(n, a) \<in> set args. \<forall>xs. answer_items a = Some xs \<longrightarrow>
            (\<exists>ys. mapE (prepareItem h) xs = Inr ys \<and> map_of acc' n = Some ys)) \<and>
         (\<forall>k. k \<notin> fst ` set args \<longrightarrow> map_of acc' k = map_of acc k)"
  using assms
proof (induction args arbitrary: acc)
  case Nil
  then show ?case by simp
next
  case (Cons p args)
  obtain i a where p: "p = (i, a)" by (cases p)
  from Cons.prems(2) p have d: "distinct (map fst args)" and i: "i \<notin> fst ` set args"
    by simp_all
  show ?case
  proof (cases "answer_items a")
    case None
    then have "prepare_all h args acc = (acc', None)"
      using Cons.prems(1) p by (simp add: answer_items_def split: answer.splits)
    from Cons.IH [OF this d] None p show ?thesis
      by auto
  next
    case (Some xs)
    then have run: "prepare_all h (p # args) acc =
        (case mapE (prepareItem h) xs of
           Inl e \<Rightarrow> (acc, Some e)
         | Inr ys \<Rightarrow> prepare_all h args (AList.update i ys acc))"
      using p by (simp add: answer_items_def split: answer.splits)
    with Cons.prems(1) obtain ys where ys: "mapE (prepareItem h) xs = Inr ys"
      and rest: "prepare_all h args (AList.update i ys acc) = (acc', None)"
      by (cases "mapE (prepareItem h) xs") simp_all
    note ih = Cons.IH [OF rest d]
    from ih i have "map_of acc' i = Some ys"
      by (simp add: update_conv')
    moreover from ih have "\<forall>k. k \<notin> fst ` set (p # args) \<longrightarrow> map_of acc' k = map_of acc k"
      using p by (simp add: update_conv')
    ultimately show ?thesis
      using ih Some ys p by auto
  qed
qed

lemma derive_objects_None:
  assumes "derive_objects h collate app_id args extensionList acc = (acc', None)"
  obtains shs uniqObjects where "map_of args ''sheet'' = Some (SheetInfo shs)"
    and "getUniqueAppObjectsFromSheets h collate shs extensionList app_id = Inr uniqObjects"
    and "acc' = AList.update ''extension'' (filter (\<lambda>a. truthy (oget a ''isThirdParty'')) uniqObjects)
                  (AList.update ''chart'' (filter (\<lambda>a. \<not> truthy (oget a ''isThirdParty'')) uniqObjects) acc)"
  using assms
  by (auto simp: derive_objects_def split: option.splits answer.splits sum.splits)

lemma load_items_None:
  assumes "snd (load_items h collate app_id outcome extensions) = None"
  obtains args extensionList acc where "q_all outcome inspected = Inr args"
    and "extensions = Inr extensionList"
    and "prepare_all h args [] = (acc, None)"
    and "derive_objects h collate app_id args extensionList acc =
           (fst (load_items h collate app_id outcome extensions), None)"
  using assms
  by (auto simp: load_items_def prod_eq_iff split: sum.splits prod.splits option.splits)

lemma load_items_nonempty:
  assumes "fst (load_items h collate app_id outcome extensions) \<noteq> []"
  obtains args extensionList where "q_all outcome inspected = Inr args"
    and "extensions = Inr extensionList"
  using assms
  by (auto simp: load_items_def split: sum.splits prod.splits option.splits)

lemma distinct_inspected: "distinct inspected"
  by (simp add: inspected_def)

lemma derived_not_inspected: "''chart'' \<notin> set inspected" "''extension'' \<notin> set inspected"
  by (simp_all add: inspected_def)

lemma sheet_inspected: "''sheet'' \<in> set inspected"
  by (simp add: inspected_def)

lemma load_items_model:
  fixes h :: host and collate :: "string \<Rightarrow> 'k :: linorder" and app_id :: string
    and outcome :: "string \<Rightarrow> error + answer" and extensions :: "error + (string \<rightharpoonup> extension)"
  defines "model \<equiv> load_items h collate app_id outcome extensions"
  shows "(fst model \<noteq> [] \<longrightarrow>
            (\<forall>n \<in> set inspected. \<exists>a. outcome n = Inr a) \<and> (\<exists>e. extensions = Inr e)) \<and>
         (snd model = None \<longrightarrow>
            (\<forall>n \<in> set inspected. \<forall>a xs. outcome n = Inr a \<longrightarrow> answer_items a = Some xs \<longrightarrow>
               (\<exists>ys. mapE (prepareItem h) xs = Inr ys \<and> map_of (fst model) n = Some ys)) \<and>
            (\<exists>shs e uniqObjects. outcome ''sheet'' = Inr (SheetInfo shs) \<and> extensions = Inr e \<and>
               getUniqueAppObjectsFromSheets h collate shs e app_id = Inr uniqObjects \<and>
               map_of (fst model) ''chart'' = Some (filter (\<lambda>a. \<not> third_party a) uniqObjects) \<and>
               map_of (fst model) ''extension'' = Some (filter third_party uniqObjects)))"
proof (intro conjI impI)
  assume "fst model \<noteq> []"
  then have ne: "fst (load_items h collate app_id outcome extensions) \<noteq> []"
    by (simp add: model_def)
  from ne show "\<exists>e. extensions = Inr e"
    by (rule load_items_nonempty) simp
  from ne show "\<forall>n \<in> set inspected. \<exists>a. outcome n = Inr a"
  proof (rule load_items_nonempty)
    fix args :: "(string \<times> answer) list"
    assume q: "q_all outcome inspected = Inr args"
    show ?thesis
    proof
      fix n assume "n \<in> set inspected"
      then have "n \<in> fst ` set args"
        using q_all_Inr(1) [OF q] by (metis set_map)
      then obtain a where "(n, a) \<in> set args" by auto
      then show "\<exists>a. outcome n = Inr a"
        using q_all_Inr(2) [OF q] by blast
    qed
  qed
next
  assume "snd model = None"
  then have ok: "snd (load_items h collate app_id outcome extensions) = None"
    by (simp add: model_def)
  from ok show "\<forall>n \<in> set inspected. \<forall>a xs. outcome n = Inr a \<longrightarrow> answer_items a = Some xs \<longrightarrow>
     (\<exists>ys. mapE (prepareItem h) xs = Inr ys \<and> map_of (fst model) n = Some ys)"
  proof (rule load_items_None)
    fix args extensionList acc
    assume q: "q_all outcome inspected = Inr args"
      and pa: "prepare_all h args [] = (acc, None)"
      and de: "derive_objects h collate app_id args extensionList acc =
                 (fst (load_items h collate app_id outcome extensions), None)"
    have keys: "map fst args = inspected" by (rule q_all_Inr(1) [OF q])
    then have d: "distinct (map fst args)" by (simp add: distinct_inspected)
    note stored = prepare_all_None [OF pa d, THEN conjunct1, rule_format]
    from de have m: "map_of (fst model) n = map_of acc n" if "n \<in> set inspected" for n
    proof (rule derive_objects_None)
      fix shs uniqObjects
      assume "fst (load_items h collate app_id outcome extensions) =
          AList.update ''extension'' (filter (\<lambda>a. truthy (oget a ''isThirdParty'')) uniqObjects)
            (AList.update ''chart'' (filter (\<lambda>a. \<not> truthy (oget a ''isThirdParty'')) uniqObjects) acc)"
      moreover from that derived_not_inspected have "n \<noteq> ''chart''" "n \<noteq> ''extension''"
        by auto
      ultimately show ?thesis
        by (simp add: model_def update_conv')
    qed
    show ?thesis
    proof (intro ballI allI impI)
      fix n a xs
      assume n: "n \<in> set inspected" and o: "outcome n = Inr a" and xs: "answer_items a = Some xs"
      from n keys have "n \<in> fst ` set args" by (metis set_map)
      then obtain a' where a': "(n, a') \<in> set args" by auto
      from q_all_Inr(2) [OF q a'] o have "a' = a" by simp
      with a' have "(n, a) \<in> set args" by simp
      from stored [OF this] xs obtain ys where
        "mapE (prepareItem h) xs = Inr ys" "map_of acc n = Some ys"
        by auto
      with m [OF n] show "\<exists>ys. mapE (prepareItem h) xs = Inr ys \<and> map_of (fst model) n = Some ys"
        by simp
    qed
  qed
  from ok show "\<exists>shs e uniqObjects. outcome ''sheet'' = Inr (SheetInfo shs) \<and> extensions = Inr e \<and>
     getUniqueAppObjectsFromSheets h collate shs e app_id = Inr uniqObjects \<and>
     map_of (fst model) ''chart'' = Some (filter (\<lambda>a. \<not> third_party a) uniqObjects) \<and>
     map_of (fst model) ''extension'' = Some (filter third_party uniqObjects)"
  proof (rule load_items_None)
    fix args extensionList acc
    assume q: "q_all outcome inspected = Inr args"
      and ex: "extensions = Inr extensionList"
      and de: "derive_objects h collate app_id args extensionList acc =
                 (fst (load_items h collate app_id outcome extensions), None)"
    from de show ?thesis
    proof (rule derive_objects_None)
      fix shs uniqObjects
      assume s: "map_of args ''sheet'' = Some (SheetInfo shs)"
        and u: "getUniqueAppObjectsFromSheets h collate shs extensionList app_id = Inr uniqObjects"
        and f: "fst (load_items h collate app_id outcome extensions) =
          AList.update ''extension'' (filter (\<lambda>a. truthy (oget a ''isThirdParty'')) uniqObjects)
            (AList.update ''chart'' (filter (\<lambda>a. \<not> truthy (oget a ''isThirdParty'')) uniqObjects) acc)"
      from s have "(''sheet'', SheetInfo shs) \<in> set args" by (rule map_of_SomeD)
      then have o: "outcome ''sheet'' = Inr (SheetInfo shs)" by (rule q_all_Inr(2) [OF q])
      from f have c: "map_of (fst model) ''chart'' = Some (filter (\<lambda>a. \<not> third_party a) uniqObjects)"
        and e: "map_of (fst model) ''extension'' = Some (filter third_party uniqObjects)"
        by (simp_all add: model_def update_conv' third_party_def [abs_def])
      from o ex u c e show ?thesis by blast
    qed
  qed
qed

text \<open>
  Claim C6. The display model \<open>$scope.allItems\<close> holds anything only if every one of the
  ten queries app, script, field, sheet, dimension, measure, masterObject,
  alternate-state, variable and bookmark has resolved, and the query of the extension
  list after them. When the callback has run without an exception, every one of the ten
  that resolved to an array has its prepared items in the model under its name, and the
  categories \<open>chart\<close> and \<open>extension\<close> are the grouped objects of the sheets result
  without and with \<open>isThirdParty\<close>, in their order.
\<close>

theorem model_after_all_queries:
  fixes h :: host and collate :: "string \<Rightarrow> 'k :: linorder" and app_id :: string
    and outcome :: "string \<Rightarrow> error + answer" and extensions :: "error + (string \<rightharpoonup> extension)"
  defines "model \<equiv> load_items h collate app_id outcome extensions"
  shows "(fst model \<noteq> [] \<longrightarrow>
            (\<forall>n \<in> set [''app'', ''script'', ''field'', ''sheet'', ''dimension'', ''measure'',
                          ''masterObject'', ''alternate-state'', ''variable'', ''bookmark''].
               \<exists>a. outcome n = Inr a) \<and>
            (\<exists>e. extensions = Inr e)) \<and>
         (snd model = None \<longrightarrow>
            (\<forall>n \<in> set [''app'', ''script'', ''field'', ''sheet'', ''dimension'', ''measure'',
                          ''masterObject'', ''alternate-state'', ''variable'', ''bookmark''].
               \<forall>a xs. outcome n = Inr a \<longrightarrow> answer_items a = Some xs \<longrightarrow>
                 (\<exists>ys. mapE (prepareItem h) xs = Inr ys \<and> map_of (fst model) n = Some ys)) \<and>
            (\<exists>shs e uniqObjects. outcome ''sheet'' = Inr (SheetInfo shs) \<and> extensions = Inr e \<and>
               getUniqueAppObjectsFromSheets h collate shs e app_id = Inr uniqObjects \<and>
               map_of (fst model) ''chart'' = Some (filter (\<lambda>a. \<not> third_party a) uniqObjects) \<and>
               map_of (fst model) ''extension'' = Some (filter third_party uniqObjects)))"
  unfolding model_def
  using load_items_model [of h collate app_id outcome extensions]
  unfolding inspected_def .

lemma mixed_objects_run:
  "getUniqueAppObjectsFromSheets plain_host codes mixed_sheets Map.empty ''app1'' = Inr mixed_objects"
  by code_simp

lemma sample_loaded_run:
  "snd (load_items plain_host codes ''app1'' sample_outcome (Inr Map.empty)) = None \<and>
   map fst sample_loaded = [''app'', ''script'', ''field'', ''sheet'', ''dimension'', ''measure'',
      ''masterObject'', ''alternate-state'', ''variable'', ''bookmark'', ''chart'', ''extension''] \<and>
   map item_id mixed_objects = [JStr ''my-gauge'', JStr ''table''] \<and>
   map third_party mixed_objects = [True, False]"
  by code_simp

theorem model_after_all_queries_witness:
  "sample_loaded \<noteq> [] \<and>
   snd (load_items plain_host codes ''app1'' sample_outcome (Inr Map.empty)) = None \<and>
   list_all (\<lambda>n. \<exists>a. sample_outcome n = Inr a)
     [''app'', ''script'', ''field'', ''sheet'', ''dimension'', ''measure'',
      ''masterObject'', ''alternate-state'', ''variable'', ''bookmark''] \<and>
   (\<exists>ys. mapE (prepareItem plain_host) [sample_item] = Inr ys \<and> map_of sample_loaded ''field'' = Some ys) \<and>
   (\<exists>ys. mapE (prepareItem plain_host) [app_props] = Inr ys \<and> map_of sample_loaded ''app'' = Some ys) \<and>
   map_of sample_loaded ''bookmark'' = Some [] \<and>
   map_of sample_loaded ''chart'' = Some (filter (\<lambda>a. \<not> third_party a) mixed_objects) \<and>
   map_of sample_loaded ''extension'' = Some (filter third_party mixed_objects) \<and>
   map third_party mixed_objects = [True, False] \<and>
   failed_outcome ''bookmark'' = Inl TypeError \<and>
   fst (load_items plain_host codes ''app1'' failed_outcome (Inr Map.empty)) = []"
proof -
  note t = model_after_all_queries [of plain_host codes "''app1''" sample_outcome "Inr Map.empty",
      folded sample_loaded_def]
  have ok: "snd (load_items plain_host codes ''app1'' sample_outcome (Inr Map.empty)) = None"
    using sample_loaded_run by (rule conjunct1)
  have ne: "sample_loaded \<noteq> []"
    using sample_loaded_run by auto
  from t [THEN conjunct1, rule_format, OF ne, THEN conjunct1]
  have queries: "list_all (\<lambda>n. \<exists>a. sample_outcome n = Inr a)
     [''app'', ''script'', ''field'', ''sheet'', ''dimension'', ''measure'',
      ''masterObject'', ''alternate-state'', ''variable'', ''bookmark'']"
    by (simp only: list_all_iff)
  note stored = t [THEN conjunct2, rule_format, OF ok, THEN conjunct1, rule_format]
  have field: "\<exists>ys. mapE (prepareItem plain_host) [sample_item] = Inr ys \<and>
      map_of sample_loaded ''field'' = Some ys"
    by (rule stored [of "''field''" "Items [sample_item]"]) (simp_all add: sample_outcome_def answer_items_def)
  have app: "\<exists>ys. mapE (prepareItem plain_host) [app_props] = Inr ys \<and>
      map_of sample_loaded ''app'' = Some ys"
    by (rule stored [of "''app''" "Items [app_props]"]) (simp_all add: sample_outcome_def answer_items_def)
  have "\<exists>ys. mapE (prepareItem plain_host) [] = Inr ys \<and> map_of sample_loaded ''bookmark'' = Some ys"
    by (rule stored [of "''bookmark''" "Items []"]) (simp_all add: sample_outcome_def answer_items_def)
  then have bookmark: "map_of sample_loaded ''bookmark'' = Some []"
    by simp
  from t [THEN conjunct2, rule_format, OF ok, THEN conjunct2] obtain shs e uniqObjects where
    s: "sample_outcome ''sheet'' = Inr (SheetInfo shs)" and e: "Inr Map.empty = (Inr e :: error + (string \<rightharpoonup> extension))"
    and u: "getUniqueAppObjectsFromSheets plain_host codes shs e ''app1'' = Inr uniqObjects"
    and c: "map_of sample_loaded ''chart'' = Some (filter (\<lambda>a. \<not> third_party a) uniqObjects)"
    and x: "map_of sample_loaded ''extension'' = Some (filter third_party uniqObjects)"
    by (elim exE conjE)
  from s have "shs = mixed_sheets" by (simp add: sample_outcome_def)
  moreover from e have "e = Map.empty" by simp
  ultimately have "uniqObjects = mixed_objects"
    using u mixed_objects_run by simp
  with c x have derived: "map_of sample_loaded ''chart'' = Some (filter (\<lambda>a. \<not> third_party a) mixed_objects)"
    "map_of sample_loaded ''extension'' = Some (filter third_party mixed_objects)"
    by simp_all
  have rejected: "failed_outcome ''bookmark'' = Inl TypeError"
    by (simp add: failed_outcome_def)
  note f = model_after_all_queries [of plain_host codes "''app1''" failed_outcome "Inr Map.empty",
      THEN conjunct1]
  have empty: "fst (load_items plain_host codes ''app1'' failed_outcome (Inr Map.empty)) = []"
  proof (rule ccontr)
    assume "fst (load_items plain_host codes ''app1'' failed_outcome (Inr Map.empty)) \<noteq> []"
    from f [rule_format, OF this, THEN conjunct1] have "\<exists>a. failed_outcome ''bookmark'' = Inr a"
      by simp
    with rejected show False by simp
  qed
  from ne ok queries field app bookmark derived sample_loaded_run rejected empty show ?thesis
    by (intro conjI) simp_all
qed

end
